theory Spec2Isabelle
  imports Main "HOL-Library.Sublist"
begin

section \<open>Magic Notes: a shallow embedding of the note store and the view controller\<close>

text \<open>
  The repository holds two versions of one script. \<^verbatim>\<open>app.js\<close> deletes a note straight
  from its card's button and protects "delete all" with a \<^verbatim>\<open>prompt\<close>; the second
  script (\<^verbatim>\<open>part_000\<close>) asks with \<^verbatim>\<open>confirm\<close> before either deletion and shows or
  hides the "delete all" button. The functions \<^verbatim>\<open>getNotes\<close>, \<^verbatim>\<open>saveNotes\<close>,
  \<^verbatim>\<open>saveNewNote\<close>, \<^verbatim>\<open>deleteNote\<close>, \<^verbatim>\<open>deleteAllNotes\<close> and \<^verbatim>\<open>updateDisplayedNotes\<close>
  are the same text in both, up to the ids of the page elements and the card template.

  Conventions of the model.
  \<^item> A JavaScript string is a \<^typ>\<open>string\<close>, read as a sequence of code units in the range
    0..255; \<^verbatim>\<open>toLowerCase\<close> and \<^verbatim>\<open>trim\<close> are the ECMAScript functions on that range.
  \<^item> An uncaught exception is a value \<open>Inl e\<close>; the page as the aborted handler left it is
    not tracked.
  \<^item> \<^verbatim>\<open>localStorage.setItem\<close> always succeeds (no quota).
  \<^item> \<^verbatim>\<open>crypto.randomUUID()\<close> is a sequence of strings fixed in the world, read in order.
\<close>

subsection \<open>Values and errors\<close>

datatype js_error = SyntaxError | TypeError | OutsideModel | FuelExhausted

text \<open>
  \<open>SyntaxError\<close> and \<open>TypeError\<close> are the exceptions of the host. \<open>OutsideModel\<close> marks a
  stored value the model has no representation for (a note property that is not a string,
  a property other than the four of a note, an array element that is not an object, an
  escape \<^verbatim>\<open>\uXXXX\<close> above code unit 255). \<open>FuelExhausted\<close> is the recursion bound of the
  parser below.
\<close>

datatype json =
    JNull
  | JBool bool
  | JNumber string
  | JString string
  | JArray "json list"
  | JObject "(string \<times> json) list"

record Note =
  uuid :: string
  title :: string
  content :: string
  color :: string

datatype dialog = Alert string | Confirm string | Prompt string

datatype version = AppJs | Part000

record world =
  localStorage :: "string \<rightharpoonup> string"
  randomUUID :: "nat \<Rightarrow> string"
  uuidCalls :: nat
  searchTxt :: string
  notesHtml :: string
  inpTitle :: string
  txtContent :: string
  selectorColor :: string
  addBtnDisabled :: bool
  delAllHidden :: bool
  dialogs :: "dialog list"

text \<open>
  The fields of \<^typ>\<open>world\<close>: the storage area; the results of the successive calls of
  \<^verbatim>\<open>crypto.randomUUID()\<close> and the number of calls made; the value of the search input
  (\<^verbatim>\<open>searchTxt\<close>, \<^verbatim>\<open>txt-search\<close>); the \<^verbatim>\<open>innerHTML\<close> of the notes container (\<^verbatim>\<open>notes\<close>,
  \<^verbatim>\<open>notes-container\<close>); the values of the title input, the content text area and the
  colour selector; whether the add button is disabled; whether the "delete all" button
  carries the class \<^verbatim>\<open>hidden\<close> (second script only); the dialogs shown so far, oldest first.
\<close>

subsection \<open>Strings\<close>

definition toLowerCaseChar :: "char \<Rightarrow> char" where
  "toLowerCaseChar c =
     (let n = (of_char c :: nat) in
      if (65 \<le> n \<and> n \<le> 90) \<or> (192 \<le> n \<and> n \<le> 222 \<and> n \<noteq> 215) then char_of (n + 32) else c)"

definition toLowerCase :: "string \<Rightarrow> string" where
  "toLowerCase s = map toLowerCaseChar s"

definition isWhiteSpace :: "char \<Rightarrow> bool" where
  "isWhiteSpace c \<longleftrightarrow>
     c = CHR 0x09 \<or> c = CHR 0x0A \<or> c = CHR 0x0B \<or> c = CHR 0x0C \<or> c = CHR 0x0D \<or>
     c = CHR 0x20 \<or> c = CHR 0xA0"

definition trim :: "string \<Rightarrow> string" where
  "trim s = rev (dropWhile isWhiteSpace (rev (dropWhile isWhiteSpace s)))"

fun str_includes :: "string \<Rightarrow> string \<Rightarrow> bool" where
  "str_includes [] needle = (needle = [])"
| "str_includes (c # cs) needle = (prefix needle (c # cs) \<or> str_includes cs needle)"

fun joinStrings :: "string \<Rightarrow> string list \<Rightarrow> string" where
  "joinStrings sep [] = []"
| "joinStrings sep [x] = x"
| "joinStrings sep (x # y # ys) = x @ sep @ joinStrings sep (y # ys)"

subsection \<open>JSON text\<close>

text \<open>
  \<^verbatim>\<open>JSON.stringify\<close> on an array of notes, and \<^verbatim>\<open>JSON.parse\<close> on any text. A number
  is kept as its lexeme. The parser recurses on fuel; \<open>JSON_parse\<close> gives it two units
  per character, more than any text can use (\<open>JSON_parse_fuel\<close> below).
\<close>

definition isJSONWhiteSpace :: "char \<Rightarrow> bool" where
  "isJSONWhiteSpace c \<longleftrightarrow> c = CHR 0x09 \<or> c = CHR 0x0A \<or> c = CHR 0x0D \<or> c = CHR 0x20"

definition skipWS :: "string \<Rightarrow> string" where
  "skipWS = dropWhile isJSONWhiteSpace"

definition hexDigit :: "nat \<Rightarrow> char" where
  "hexDigit n = (if n < 10 then char_of (48 + n) else char_of (87 + n))"

definition hexDigitValue :: "char \<Rightarrow> nat option" where
  "hexDigitValue c =
     (let n = (of_char c :: nat) in
      if 48 \<le> n \<and> n \<le> 57 then Some (n - 48)
      else if 97 \<le> n \<and> n \<le> 102 then Some (n - 87)
      else if 65 \<le> n \<and> n \<le> 70 then Some (n - 55)
      else None)"

definition quoteJSONChar :: "char \<Rightarrow> string" where
  "quoteJSONChar c =
     (if c = CHR 0x08 then [CHR 0x5C, CHR ''b'']
      else if c = CHR 0x09 then [CHR 0x5C, CHR ''t'']
      else if c = CHR 0x0A then [CHR 0x5C, CHR ''n'']
      else if c = CHR 0x0C then [CHR 0x5C, CHR ''f'']
      else if c = CHR 0x0D then [CHR 0x5C, CHR ''r'']
      else if c = CHR 0x22 then [CHR 0x5C, CHR 0x22]
      else if c = CHR 0x5C then [CHR 0x5C, CHR 0x5C]
      else if (of_char c :: nat) < 32 then
        [CHR 0x5C, CHR ''u'', CHR ''0'', CHR ''0'',
         hexDigit ((of_char c :: nat) div 16), hexDigit ((of_char c :: nat) mod 16)]
      else [c])"

definition quoteJSONString :: "string \<Rightarrow> string" where
  "quoteJSONString s = CHR 0x22 # concat (map quoteJSONChar s) @ [CHR 0x22]"

definition unescape :: "char \<Rightarrow> char option" where
  "unescape e =
     (if e = CHR 0x22 then Some (CHR 0x22)
      else if e = CHR ''/'' then Some (CHR ''/'')
      else if e = CHR 0x5C then Some (CHR 0x5C)
      else if e = CHR ''b'' then Some (CHR 0x08)
      else if e = CHR ''f'' then Some (CHR 0x0C)
      else if e = CHR ''n'' then Some (CHR 0x0A)
      else if e = CHR ''r'' then Some (CHR 0x0D)
      else if e = CHR ''t'' then Some (CHR 0x09)
      else None)"

definition consChar :: "char \<Rightarrow> js_error + (string \<times> string) \<Rightarrow> js_error + (string \<times> string)" where
  "consChar c r = (case r of Inl e \<Rightarrow> Inl e | Inr (s, rest) \<Rightarrow> Inr (c # s, rest))"

definition hex4 :: "char \<Rightarrow> char \<Rightarrow> char \<Rightarrow> char \<Rightarrow> nat option" where
  "hex4 a b c d =
     (case (hexDigitValue a, hexDigitValue b, hexDigitValue c, hexDigitValue d) of
        (Some x, Some y, Some z, Some u) \<Rightarrow> Some (((x * 16 + y) * 16 + z) * 16 + u)
      | _ \<Rightarrow> None)"

fun parseStringChars :: "string \<Rightarrow> js_error + (string \<times> string)" where
  "parseStringChars [] = Inl SyntaxError"
| "parseStringChars (c # cs) =
     (if c = CHR 0x22 then Inr ([], cs)
      else if c = CHR 0x5C then
        (case cs of
           [] \<Rightarrow> Inl SyntaxError
         | e # r \<Rightarrow>
             if e = CHR ''u'' then
               (case r of
                  a # b # c' # d # r' \<Rightarrow>
                    (case hex4 a b c' d of
                       None \<Rightarrow> Inl SyntaxError
                     | Some n \<Rightarrow>
                         if n < 256 then consChar (char_of n) (parseStringChars r')
                         else Inl OutsideModel)
                | _ \<Rightarrow> Inl SyntaxError)
             else
               (case unescape e of
                  None \<Rightarrow> Inl SyntaxError
                | Some x \<Rightarrow> consChar x (parseStringChars r)))
      else if (of_char c :: nat) < 32 then Inl SyntaxError
      else consChar c (parseStringChars cs))"

definition stringifyNote :: "Note \<Rightarrow> string" where
  "stringifyNote n =
     ''{\"uuid\":'' @ quoteJSONString (uuid n) @
     '',\"title\":'' @ quoteJSONString (title n) @
     '',\"content\":'' @ quoteJSONString (content n) @
     '',\"color\":'' @ quoteJSONString (color n) @ ''}''"

definition JSON_stringify :: "Note list \<Rightarrow> string" where
  "JSON_stringify notes = ''['' @ joinStrings '','' (map stringifyNote notes) @ '']''"

definition isDigit :: "char \<Rightarrow> bool" where
  "isDigit c \<longleftrightarrow> 48 \<le> (of_char c :: nat) \<and> (of_char c :: nat) \<le> 57"

definition parseDigits :: "string \<Rightarrow> (string \<times> string) option" where
  "parseDigits s =
     (if takeWhile isDigit s = [] then None
      else Some (takeWhile isDigit s, dropWhile isDigit s))"

definition parseInt :: "string \<Rightarrow> (string \<times> string) option" where
  "parseInt s =
     (case s of
        [] \<Rightarrow> None
      | c # r \<Rightarrow> if c = CHR ''0'' then Some ([c], r) else parseDigits s)"

definition parseFrac :: "string \<Rightarrow> (string \<times> string) option" where
  "parseFrac s =
     (case s of
        [] \<Rightarrow> Some ([], s)
      | c # r \<Rightarrow>
          if c = CHR ''.'' then
            (case parseDigits r of None \<Rightarrow> None | Some (ds, t) \<Rightarrow> Some (c # ds, t))
          else Some ([], s))"

definition parseExp :: "string \<Rightarrow> (string \<times> string) option" where
  "parseExp s =
     (case s of
        [] \<Rightarrow> Some ([], s)
      | c # r \<Rightarrow>
          if c = CHR ''e'' \<or> c = CHR ''E'' then
            (case r of
               [] \<Rightarrow> None
             | d # r' \<Rightarrow>
                 if d = CHR ''+'' \<or> d = CHR ''-'' then
                   (case parseDigits r' of None \<Rightarrow> None | Some (ds, t) \<Rightarrow> Some (c # d # ds, t))
                 else
                   (case parseDigits r of None \<Rightarrow> None | Some (ds, t) \<Rightarrow> Some (c # ds, t)))
          else Some ([], s))"

definition parseNumber :: "string \<Rightarrow> (string \<times> string) option" where
  "parseNumber s =
     (let (sign, s1) = (case s of [] \<Rightarrow> ([], s) | c # r \<Rightarrow> if c = CHR ''-'' then ([c], r) else ([], s))
      in case parseInt s1 of
           None \<Rightarrow> None
         | Some (ip, s2) \<Rightarrow>
             (case parseFrac s2 of
                None \<Rightarrow> None
              | Some (fp, s3) \<Rightarrow>
                  (case parseExp s3 of
                     None \<Rightarrow> None
                   | Some (ep, s4) \<Rightarrow> Some (sign @ ip @ fp @ ep, s4))))"

fun parseValue :: "nat \<Rightarrow> string \<Rightarrow> js_error + (json \<times> string)"
  and parseElements :: "nat \<Rightarrow> string \<Rightarrow> js_error + (json list \<times> string)"
  and parseMembers :: "nat \<Rightarrow> string \<Rightarrow> js_error + ((string \<times> json) list \<times> string)"
where
  "parseValue 0 s = Inl FuelExhausted"
| "parseValue (Suc n) s =
     (case skipWS s of
        [] \<Rightarrow> Inl SyntaxError
      | c # cs \<Rightarrow>
          if c = CHR ''['' then
            (case skipWS cs of
               [] \<Rightarrow> Inl SyntaxError
             | d # ds \<Rightarrow>
                 if d = CHR '']'' then Inr (JArray [], ds)
                 else (case parseElements n cs of
                         Inl e \<Rightarrow> Inl e
                       | Inr (vs, r) \<Rightarrow> Inr (JArray vs, r)))
          else if c = CHR ''{'' then
            (case skipWS cs of
               [] \<Rightarrow> Inl SyntaxError
             | d # ds \<Rightarrow>
                 if d = CHR ''}'' then Inr (JObject [], ds)
                 else (case parseMembers n cs of
                         Inl e \<Rightarrow> Inl e
                       | Inr (ms, r) \<Rightarrow> Inr (JObject ms, r)))
          else if c = CHR 0x22 then
            (case parseStringChars cs of
               Inl e \<Rightarrow> Inl e
             | Inr (str, r) \<Rightarrow> Inr (JString str, r))
          else if take 4 (c # cs) = ''null'' then Inr (JNull, drop 4 (c # cs))
          else if take 4 (c # cs) = ''true'' then Inr (JBool True, drop 4 (c # cs))
          else if take 5 (c # cs) = ''false'' then Inr (JBool False, drop 5 (c # cs))
          else (case parseNumber (c # cs) of
                  None \<Rightarrow> Inl SyntaxError
                | Some (lexeme, r) \<Rightarrow> Inr (JNumber lexeme, r)))"
| "parseElements 0 s = Inl FuelExhausted"
| "parseElements (Suc n) s =
     (case parseValue n s of
        Inl e \<Rightarrow> Inl e
      | Inr (v, r) \<Rightarrow>
          (case skipWS r of
             [] \<Rightarrow> Inl SyntaxError
           | c # cs \<Rightarrow>
               if c = CHR '','' then
                 (case parseElements n cs of
                    Inl e \<Rightarrow> Inl e
                  | Inr (vs, r') \<Rightarrow> Inr (v # vs, r'))
               else if c = CHR '']'' then Inr ([v], cs)
               else Inl SyntaxError))"
| "parseMembers 0 s = Inl FuelExhausted"
| "parseMembers (Suc n) s =
     (case skipWS s of
        [] \<Rightarrow> Inl SyntaxError
      | q # s1 \<Rightarrow>
          if q \<noteq> CHR 0x22 then Inl SyntaxError
          else
            (case parseStringChars s1 of
               Inl e \<Rightarrow> Inl e
             | Inr (k, s2) \<Rightarrow>
                 (case skipWS s2 of
                    [] \<Rightarrow> Inl SyntaxError
                  | colon # s3 \<Rightarrow>
                      if colon \<noteq> CHR '':'' then Inl SyntaxError
                      else
                        (case parseValue n s3 of
                           Inl e \<Rightarrow> Inl e
                         | Inr (v, s4) \<Rightarrow>
                             (case skipWS s4 of
                                [] \<Rightarrow> Inl SyntaxError
                              | c # cs \<Rightarrow>
                                  if c = CHR '','' then
                                    (case parseMembers n cs of
                                       Inl e \<Rightarrow> Inl e
                                     | Inr (ms, r) \<Rightarrow> Inr ((k, v) # ms, r))
                                  else if c = CHR ''}'' then Inr ([(k, v)], cs)
                                  else Inl SyntaxError)))))"

definition JSON_parse :: "string \<Rightarrow> js_error + json" where
  "JSON_parse s =
     (case parseValue (2 * length s + 2) s of
        Inl e \<Rightarrow> Inl e
      | Inr (v, r) \<Rightarrow> if skipWS r = [] then Inr v else Inl SyntaxError)"

subsection \<open>The note store\<close>

definition NOTES_LOCAL_STORAGE_KEY :: string where
  "NOTES_LOCAL_STORAGE_KEY = ''notes''"

text \<open>
  \<^verbatim>\<open>new Note(title, content, color)\<close>: the constructor draws the next UUID. The callers
  below pass strings, so the default parameters apply only in \<open>fromObj\<close>.
\<close>

definition newNote :: "string \<Rightarrow> string \<Rightarrow> string \<Rightarrow> world \<Rightarrow> Note \<times> world" where
  "newNote t c col w =
     (\<lparr>uuid = randomUUID w (uuidCalls w), title = t, content = c, color = col\<rparr>,
      w\<lparr>uuidCalls := Suc (uuidCalls w)\<rparr>)"

text \<open>
  \<^verbatim>\<open>Object.assign(new Note(), obj)\<close> copies the properties of \<open>obj\<close> in their order, a later
  one overwriting an earlier one of the same name.
\<close>

definition assignProperty :: "Note \<Rightarrow> string \<times> json \<Rightarrow> js_error + Note" where
  "assignProperty n kv =
     (case snd kv of
        JString s \<Rightarrow>
          if fst kv = ''uuid'' then Inr (n\<lparr>uuid := s\<rparr>)
          else if fst kv = ''title'' then Inr (n\<lparr>title := s\<rparr>)
          else if fst kv = ''content'' then Inr (n\<lparr>content := s\<rparr>)
          else if fst kv = ''color'' then Inr (n\<lparr>color := s\<rparr>)
          else Inl OutsideModel
      | _ \<Rightarrow> Inl OutsideModel)"

fun assignProperties :: "Note \<Rightarrow> (string \<times> json) list \<Rightarrow> js_error + Note" where
  "assignProperties n [] = Inr n"
| "assignProperties n (kv # kvs) =
     (case assignProperty n kv of
        Inl e \<Rightarrow> Inl e
      | Inr n' \<Rightarrow> assignProperties n' kvs)"

definition fromObj :: "json \<Rightarrow> world \<Rightarrow> js_error + (Note \<times> world)" where
  "fromObj obj w =
     (let (n, w') = newNote [] [] ''white'' w
      in case obj of
           JObject kvs \<Rightarrow>
             (case assignProperties n kvs of
                Inl e \<Rightarrow> Inl e
              | Inr n' \<Rightarrow> Inr (n', w'))
         | _ \<Rightarrow> Inl OutsideModel)"

fun mapFromObj :: "json list \<Rightarrow> world \<Rightarrow> js_error + (Note list \<times> world)" where
  "mapFromObj [] w = Inr ([], w)"
| "mapFromObj (obj # objs) w =
     (case fromObj obj w of
        Inl e \<Rightarrow> Inl e
      | Inr (n, w') \<Rightarrow>
          (case mapFromObj objs w' of
             Inl e \<Rightarrow> Inl e
           | Inr (ns, w'') \<Rightarrow> Inr (n # ns, w'')))"

text \<open>\<^verbatim>\<open>localStorage.getItem(key) || "[]"\<close>: \<^verbatim>\<open>null\<close> and the empty string are falsy.\<close>

definition getItemOr :: "world \<Rightarrow> string \<Rightarrow> string \<Rightarrow> string" where
  "getItemOr w key dflt =
     (case localStorage w key of
        None \<Rightarrow> dflt
      | Some s \<Rightarrow> if s = [] then dflt else s)"

definition getNotes :: "world \<Rightarrow> js_error + (Note list \<times> world)" where
  "getNotes w =
     (let jsonObjs = getItemOr w NOTES_LOCAL_STORAGE_KEY ''[]''
      in case JSON_parse jsonObjs of
           Inl e \<Rightarrow> Inl e
         | Inr objs \<Rightarrow>
             (case objs of
                JArray xs \<Rightarrow> mapFromObj xs w
              | _ \<Rightarrow> Inl TypeError))"

definition saveNotes :: "Note list \<Rightarrow> world \<Rightarrow> world" where
  "saveNotes notes w =
     (let jsonNotes = JSON_stringify notes
      in w\<lparr>localStorage := (localStorage w)(NOTES_LOCAL_STORAGE_KEY \<mapsto> jsonNotes)\<rparr>)"

definition saveNewNote :: "Note \<Rightarrow> world \<Rightarrow> js_error + world" where
  "saveNewNote n w =
     (case getNotes w of
        Inl e \<Rightarrow> Inl e
      | Inr (notes, w') \<Rightarrow> Inr (saveNotes (notes @ [n]) w'))"

text \<open>The store as the specification names it: \<open>listAll\<close> is what \<open>getNotes\<close> returns.\<close>

definition listAll :: "world \<Rightarrow> js_error + Note list" where
  "listAll w = (case getNotes w of Inl e \<Rightarrow> Inl e | Inr (notes, w') \<Rightarrow> Inr notes)"

subsection \<open>The view controller\<close>

definition nothingToShow :: string where
  "nothingToShow = ''<div>Nothing to show! Use \"Add a Note\" section above to add notes.</div>''"

definition noteCard :: "version \<Rightarrow> Note \<Rightarrow> string" where
  "noteCard v n =
     (case v of
        AppJs \<Rightarrow>
          ''\<newline>                <div class=\"noteCard my-2 mx-2 card\" style=\"width: 18rem; box-shadow: 0 0 10px #333; background-color: ''
          @ color n @
          '';\">\<newline>                    <div class=\"card-body\">\<newline>                        <h5 class=\"card-title\">''
          @ title n @
          ''</h5>\<newline>                        <p class=\"card-text\"> ''
          @ content n @
          ''</p>\<newline>                        <button id=\"''
          @ uuid n @
          ''\"onclick=\"deleteNote(this.id)\" class=\"btn btn-primary\">Delete Note</button>\<newline>                    </div>\<newline>                </div>''
      | Part000 \<Rightarrow>
          ''\<newline>                <div class=\"noteCard my-2 mx-2 card\" style=\"width: 18rem; box-shadow: 0 0 10px #333; background-color: ''
          @ color n @
          '';\">\<newline>                    <a class=\"delete-note-link\" data-note-uuid=\"''
          @ uuid n @
          ''\" onclick=\"handleDeleteNoteLinkClick(this)\">X</a>\<newline>                    <div class=\"card-body\">\<newline>                        <h5 class=\"card-title\">''
          @ title n @
          ''</h5>\<newline>                        <p class=\"card-text\"> ''
          @ content n @
          ''</p>\<newline>                    </div>\<newline>                </div>'')"

text \<open>The filter of \<^verbatim>\<open>updateDisplayedNotes\<close>: only the search text is lower-cased.\<close>

definition matchedNotes :: "string \<Rightarrow> Note list \<Rightarrow> Note list" where
  "matchedNotes searchText notes =
     filter (\<lambda>n. str_includes (title n) (toLowerCase searchText) \<or>
                 str_includes (content n) (toLowerCase searchText)) notes"

definition updateDisplayedNotes :: "version \<Rightarrow> world \<Rightarrow> js_error + world" where
  "updateDisplayedNotes v w =
     (let searchText = searchTxt w
      in case getNotes w of
           Inl e \<Rightarrow> Inl e
         | Inr (notes, w') \<Rightarrow>
             (let matched = matchedNotes searchText notes
              in if length matched = 0 then Inr (w'\<lparr>notesHtml := nothingToShow\<rparr>)
                 else Inr (w'\<lparr>notesHtml := joinStrings ''\<newline>'' (map (noteCard v) matched)\<rparr>)))"

definition deleteNote :: "version \<Rightarrow> string \<Rightarrow> world \<Rightarrow> js_error + world" where
  "deleteNote v x w =
     (case getNotes w of
        Inl e \<Rightarrow> Inl e
      | Inr (notes, w') \<Rightarrow>
          (let newNotes = filter (\<lambda>n. uuid n \<noteq> x) notes
           in updateDisplayedNotes v (saveNotes newNotes w')))"

definition deleteAllNotes :: "version \<Rightarrow> world \<Rightarrow> js_error + world" where
  "deleteAllNotes v w = updateDisplayedNotes v (saveNotes [] w)"

text \<open>The dialogs of the two scripts, with their texts.\<close>

definition confirmDeleteNote :: dialog where
  "confirmDeleteNote = Confirm ''Are you sure you want to delete this note?''"

definition confirmDeleteAll :: dialog where
  "confirmDeleteAll = Confirm ''Are you sure you want to delete all your notes?''"

definition promptDeleteAll :: dialog where
  "promptDeleteAll = Prompt ''Alert! You are about to remove all your notes. Type in \"delete\" to confirm.''"

definition alertNotDeleted :: dialog where
  "alertNotDeleted = Alert ''Couldn't proceed. WARNING: case-sensitive''"

definition showDialog :: "dialog \<Rightarrow> world \<Rightarrow> world" where
  "showDialog d w = w\<lparr>dialogs := dialogs w @ [d]\<rparr>"

definition updateDeleteAllNotesButtonVisibility :: "world \<Rightarrow> js_error + world" where
  "updateDeleteAllNotesButtonVisibility w =
     (case getNotes w of
        Inl e \<Rightarrow> Inl e
      | Inr (notes, w') \<Rightarrow>
          if length notes = 0 then Inr (w'\<lparr>delAllHidden := True\<rparr>)
          else Inr (w'\<lparr>delAllHidden := False\<rparr>))"

text \<open>
  Second script: the click on a card's delete link. \<open>answer\<close> is what \<^verbatim>\<open>confirm\<close> returns,
  \<open>x\<close> the link's \<^verbatim>\<open>data-note-uuid\<close>.
\<close>

definition handleDeleteNoteLinkClick :: "bool \<Rightarrow> string \<Rightarrow> world \<Rightarrow> js_error + world" where
  "handleDeleteNoteLinkClick answer x w =
     (let w1 = showDialog confirmDeleteNote w
      in if answer then
           (case deleteNote Part000 x w1 of
              Inl e \<Rightarrow> Inl e
            | Inr w2 \<Rightarrow> updateDeleteAllNotesButtonVisibility w2)
         else Inr w1)"

text \<open>The input listener of the content text area, run after the user has set its value.\<close>

definition contentInput :: "string \<Rightarrow> world \<Rightarrow> world" where
  "contentInput text w =
     (let w1 = w\<lparr>txtContent := text\<rparr>;
          trimmedInputText = trim (txtContent w1)
      in w1\<lparr>addBtnDisabled := (length trimmedInputText = 0)\<rparr>)"

text \<open>
  The click listener of the add button. \<^verbatim>\<open>value.trim() || "Untitled"\<close>: the empty string is
  falsy. The second script ends with the visibility update.
\<close>

definition addClick :: "version \<Rightarrow> world \<Rightarrow> js_error + world" where
  "addClick v w =
     (let w0 = w\<lparr>addBtnDisabled := True\<rparr>;
          t = (if trim (inpTitle w0) = [] then ''Untitled'' else trim (inpTitle w0));
          c = txtContent w0;
          col = selectorColor w0;
          (n, w1) = newNote t c col w0
      in case saveNewNote n w1 of
           Inl e \<Rightarrow> Inl e
         | Inr w2 \<Rightarrow>
             (case updateDisplayedNotes v (w2\<lparr>txtContent := []\<rparr>) of
                Inl e \<Rightarrow> Inl e
              | Inr w3 \<Rightarrow>
                  (case v of
                     AppJs \<Rightarrow> Inr w3
                   | Part000 \<Rightarrow> updateDeleteAllNotesButtonVisibility w3)))"

text \<open>
  The click of a user on the add button. The listener is the only code of the scripts
  that the click runs, and a browser delivers no click event to a disabled button.
\<close>

definition userClicksAdd :: "version \<Rightarrow> world \<Rightarrow> js_error + world" where
  "userClicksAdd v w = (if addBtnDisabled w then Inr w else addClick v w)"

definition searchInput :: "version \<Rightarrow> string \<Rightarrow> world \<Rightarrow> js_error + world" where
  "searchInput v text w = updateDisplayedNotes v (w\<lparr>searchTxt := text\<rparr>)"

text \<open>
  \<^verbatim>\<open>app.js\<close>: the click on "delete all". \<open>answer\<close> is what \<^verbatim>\<open>prompt\<close> returns, \<open>None\<close> for
  \<^verbatim>\<open>null\<close> (the dialog was cancelled).
\<close>

definition delAllBtnClick :: "string option \<Rightarrow> world \<Rightarrow> js_error + world" where
  "delAllBtnClick answer w =
     (let w1 = showDialog promptDeleteAll w;
          isDelete = (answer = Some ''delete'')
      in if isDelete then deleteAllNotes AppJs w1
         else Inr (showDialog alertNotDeleted w1))"

text \<open>Second script: the click on "delete all". \<open>answer\<close> is what \<^verbatim>\<open>confirm\<close> returns.\<close>

definition btnDeleteAllNotesClick :: "bool \<Rightarrow> world \<Rightarrow> js_error + world" where
  "btnDeleteAllNotesClick answer w =
     (let w1 = showDialog confirmDeleteAll w
      in if answer then
           (case deleteAllNotes Part000 w1 of
              Inl e \<Rightarrow> Inl e
            | Inr w2 \<Rightarrow> updateDeleteAllNotesButtonVisibility w2)
         else Inr w1)"

text \<open>The last statements of each script, run when the page loads.\<close>

definition initPage :: "version \<Rightarrow> world \<Rightarrow> js_error + world" where
  "initPage v w =
     (case updateDisplayedNotes v w of
        Inl e \<Rightarrow> Inl e
      | Inr w1 \<Rightarrow>
          (case v of
             AppJs \<Rightarrow> Inr w1
           | Part000 \<Rightarrow> updateDeleteAllNotesButtonVisibility w1))"

subsection \<open>Sequences of store operations\<close>

text \<open>
  The specification's \<open>append\<close> is \<^verbatim>\<open>saveNewNote\<close>, which both scripts call in one place:
  the add listener constructs a note and saves it, \<^verbatim>\<open>const note = new Note(title, content,
  color); saveNewNote(note);\<close>. \<open>appendNew\<close> is these two statements and returns the note
  with the world. The specification's \<open>removeById\<close> is \<^verbatim>\<open>deleteNote\<close>.
\<close>

definition appendNew :: "string \<Rightarrow> string \<Rightarrow> string \<Rightarrow> world \<Rightarrow> js_error + (Note \<times> world)" where
  "appendNew t c col w =
     (let (n, w1) = newNote t c col w
      in case saveNewNote n w1 of
           Inl e \<Rightarrow> Inl e
         | Inr w2 \<Rightarrow> Inr (n, w2))"


datatype storeOp = Append Note | RemoveById string


subsection \<open>The page and its events\<close>

text \<open>
  What a user can do on the page, and the listener each action reaches. \<open>ClickDelete x ok\<close>
  is the click on the delete control of the card of note \<open>x\<close>, \<open>ok\<close> the answer to the
  \<^verbatim>\<open>confirm\<close> of the second script; \<open>ClickDeleteAll ok typed\<close> is the click on "delete all",
  \<open>ok\<close> the answer to the \<^verbatim>\<open>confirm\<close> of the second script and \<open>typed\<close> the answer to the
  \<^verbatim>\<open>prompt\<close> of \<^verbatim>\<open>app.js\<close>. \<open>pageAfter\<close> loads the page on a world and then handles the
  events in their order.
\<close>

datatype event =
    TypeContent string
  | TypeTitle string
  | SelectColor string
  | TypeSearch string
  | ClickAdd
  | ClickDelete string bool
  | ClickDeleteAll bool "string option"

definition handleEvent :: "version \<Rightarrow> event \<Rightarrow> world \<Rightarrow> js_error + world" where
  "handleEvent v ev w =
     (case ev of
        TypeContent text \<Rightarrow> Inr (contentInput text w)
      | TypeTitle text \<Rightarrow> Inr (w\<lparr>inpTitle := text\<rparr>)
      | SelectColor col \<Rightarrow> Inr (w\<lparr>selectorColor := col\<rparr>)
      | TypeSearch text \<Rightarrow> searchInput v text w
      | ClickAdd \<Rightarrow> userClicksAdd v w
      | ClickDelete x ok \<Rightarrow>
          (case v of
             AppJs \<Rightarrow> deleteNote AppJs x w
           | Part000 \<Rightarrow> handleDeleteNoteLinkClick ok x w)
      | ClickDeleteAll ok typed \<Rightarrow>
          (case v of
             AppJs \<Rightarrow> delAllBtnClick typed w
           | Part000 \<Rightarrow> btnDeleteAllNotesClick ok w))"

fun runEvents :: "version \<Rightarrow> event list \<Rightarrow> world \<Rightarrow> js_error + world" where
  "runEvents v [] w = Inr w"
| "runEvents v (ev # evs) w =
     (case handleEvent v ev w of
        Inl e \<Rightarrow> Inl e
      | Inr w' \<Rightarrow> runEvents v evs w')"

definition pageAfter :: "version \<Rightarrow> event list \<Rightarrow> world \<Rightarrow> js_error + world" where
  "pageAfter v evs w =
     (case initPage v w of
        Inl e \<Rightarrow> Inl e
      | Inr w' \<Rightarrow> runEvents v evs w')"

text \<open>What the notes container shows once the user has typed \<open>text\<close> into the search input.\<close>

definition shownAfterSearch :: "version \<Rightarrow> string \<Rightarrow> world \<Rightarrow> js_error + string" where
  "shownAfterSearch v text w =
     (case searchInput v text w of Inl e \<Rightarrow> Inl e | Inr w' \<Rightarrow> Inr (notesHtml w'))"

subsection \<open>The specification's words\<close>

text \<open>
  The definitions of this subsection follow the specification, not the scripts: the notes
  that were appended, in order; the surviving ones, "those appended and not subsequently
  removed"; and the search filter that "lower-cases both sides".
\<close>

fun appended :: "storeOp list \<Rightarrow> Note list" where
  "appended [] = []"
| "appended (Append n # ops) = n # appended ops"
| "appended (RemoveById x # ops) = appended ops"

fun survivors :: "storeOp list \<Rightarrow> Note list" where
  "survivors [] = []"
| "survivors (Append n # ops) =
     (if RemoveById (uuid n) \<in> set ops then survivors ops else n # survivors ops)"
| "survivors (RemoveById x # ops) = survivors ops"

definition specMatches :: "string \<Rightarrow> Note \<Rightarrow> bool" where
  "specMatches searchText n \<longleftrightarrow>
     str_includes (toLowerCase (title n)) (toLowerCase searchText) \<or>
     str_includes (toLowerCase (content n)) (toLowerCase searchText)"

subsection \<open>Auxiliary definitions of the proofs\<close>

text \<open>The JSON value of a note, and "the storage holds the text of these notes".\<close>

definition noteJson :: "Note \<Rightarrow> json" where
  "noteJson n =
     JObject [(''uuid'', JString (uuid n)), (''title'', JString (title n)),
              (''content'', JString (content n)), (''color'', JString (color n))]"

definition holds :: "world \<Rightarrow> Note list \<Rightarrow> bool" where
  "holds w xs \<longleftrightarrow> getItemOr w NOTES_LOCAL_STORAGE_KEY ''[]'' = JSON_stringify xs"


text \<open>What \<^verbatim>\<open>updateDisplayedNotes\<close> writes into the notes container.\<close>

definition rendered :: "version \<Rightarrow> string \<Rightarrow> Note list \<Rightarrow> string" where
  "rendered v searchText notes =
     (if matchedNotes searchText notes = [] then nothingToShow
      else joinStrings ''\<newline>'' (map (noteCard v) (matchedNotes searchText notes)))"

text \<open>
  The "delete all" button is hidden exactly when the store lists no note; the add button
  is disabled exactly when the trimmed content is empty; \<^verbatim>\<open>getNotes\<close> returns a list; and a
  dialog is the first one shown since an earlier world.
\<close>

definition visibilityMatchesStore :: "world \<Rightarrow> bool" where
  "visibilityMatchesStore w =
     (case listAll w of Inl e \<Rightarrow> False | Inr ns \<Rightarrow> delAllHidden w = (ns = []))"


definition readable :: "world \<Rightarrow> bool" where
  "readable w = (case listAll w of Inl e \<Rightarrow> False | Inr xs \<Rightarrow> True)"

definition askedFirst :: "dialog \<Rightarrow> world \<Rightarrow> world \<Rightarrow> bool" where
  "askedFirst d w w' = prefix (dialogs w @ [d]) (dialogs w')"

text \<open>
  Worlds to evaluate on: a page just opened on an empty storage area, with the form as a
  user has filled it in; and the note of the specification's scenario B.
\<close>

definition freshPage :: world where
  "freshPage =
     \<lparr>localStorage = Map.empty,
      randomUUID = (\<lambda>k. ''uuid-'' @ replicate k (CHR ''i'')),
      uuidCalls = 0,
      searchTxt = [],
      notesHtml = [],
      inpTitle = ''Groceries'',
      txtContent = ''milk, eggs'',
      selectorColor = ''yellow'',
      addBtnDisabled = False,
      delAllHidden = False,
      dialogs = []\<rparr>"

definition groceries :: Note where
  "groceries = \<lparr>uuid = ''uuid-'', title = ''Groceries'', content = ''milk, eggs'', color = ''yellow''\<rparr>"

section \<open>Properties\<close>

subsection \<open>Quoting a string and reading it back\<close>

lemma hexDigitValue_hexDigit: "n < 16 \<Longrightarrow> hexDigitValue (hexDigit n) = Some n"
proof -
  assume "n < 16"
  then consider "n < 10" | "10 \<le> n" "n < 16" by linarith
  then show ?thesis
  proof cases
    case 1
    then show ?thesis by (simp add: hexDigitValue_def hexDigit_def Let_def)
  next
    case 2
    then show ?thesis by (simp add: hexDigitValue_def hexDigit_def Let_def)
  qed
qed

lemma hex4_escape:
  assumes "n < 256"
  shows "hex4 (CHR ''0'') (CHR ''0'') (hexDigit (n div 16)) (hexDigit (n mod 16)) = Some n"
proof -
  have a: "hexDigitValue (hexDigit (n div 16)) = Some (n div 16)"
    using assms by (intro hexDigitValue_hexDigit) simp
  have b: "hexDigitValue (hexDigit (n mod 16)) = Some (n mod 16)"
    by (intro hexDigitValue_hexDigit) simp
  have z: "hexDigitValue (CHR ''0'') = Some 0"
    by (simp add: hexDigitValue_def)
  show ?thesis by (simp add: hex4_def a b z)
qed

lemma parse_quoteJSONChar:
  "parseStringChars (quoteJSONChar c @ t) = consChar c (parseStringChars t)"
proof -
  consider (special) "c \<in> {CHR 0x08, CHR 0x09, CHR 0x0A, CHR 0x0C, CHR 0x0D, CHR 0x22, CHR 0x5C}"
    | (control) "c \<notin> {CHR 0x08, CHR 0x09, CHR 0x0A, CHR 0x0C, CHR 0x0D, CHR 0x22, CHR 0x5C}" "(of_char c :: nat) < 32"
    | (plain) "c \<notin> {CHR 0x08, CHR 0x09, CHR 0x0A, CHR 0x0C, CHR 0x0D, CHR 0x22, CHR 0x5C}" "\<not> (of_char c :: nat) < 32"
    by blast
  then show ?thesis
  proof cases
    case special
    then show ?thesis by (auto simp: quoteJSONChar_def unescape_def)
  next
    case control
    have h: "hex4 (CHR ''0'') (CHR ''0'') (hexDigit (of_char c div 16)) (hexDigit (of_char c mod 16)) = Some (of_char c)"
      using control(2) by (intro hex4_escape) simp
    from control show ?thesis by (simp add: quoteJSONChar_def h)
  next
    case plain
    then show ?thesis by (simp add: quoteJSONChar_def)
  qed
qed

lemma parseStringChars_quote:
  "parseStringChars (concat (map quoteJSONChar s) @ CHR 0x22 # rest) = Inr (s, rest)"
  by (induction s) (simp_all add: parse_quoteJSONChar consChar_def)


subsection \<open>The parser consumes its input and never runs out of fuel\<close>

lemma consChar_rest:
  "consChar c p = Inr (s, r) \<Longrightarrow> \<exists>s'. p = Inr (s', r)"
  by (auto simp: consChar_def split: sum.splits)

lemma parseStringChars_shorter:
  "parseStringChars s = Inr (str, r) \<Longrightarrow> length r < length s"
proof (induction s arbitrary: str r rule: parseStringChars.induct)
  case 1
  then show ?case by simp
next
  case (2 c cs)
  show ?case
  proof (cases "c = CHR 0x22")
    case True
    with "2.prems" show ?thesis by simp
  next
    case nq: False
    show ?thesis
    proof (cases "c = CHR 0x5C")
      case False
      with nq "2.prems" obtain s' where "parseStringChars cs = Inr (s', r)"
        by (auto dest!: consChar_rest split: if_splits)
      from "2.IH"(3) [OF nq False _ this] "2.prems" nq False show ?thesis
        by (auto split: if_splits)
    next
      case bs: True
      show ?thesis
      proof (cases cs)
        case Nil
        with "2.prems" nq bs show ?thesis by simp
      next
        case (Cons e t)
        show ?thesis
        proof (cases "e = CHR ''u''")
          case False
          with "2.prems" nq bs Cons obtain x s' where "unescape e = Some x"
            and "parseStringChars t = Inr (s', r)"
            by (auto dest!: consChar_rest split: option.splits)
          from "2.IH"(2) [OF nq bs Cons False this] show ?thesis
            by (simp add: Cons)
        next
          case u: True
          with "2.prems" nq bs Cons obtain a b c' d t' n s' where
            t: "t = a # b # c' # d # t'" and h: "hex4 a b c' d = Some n" and n: "n < 256"
            and p: "parseStringChars t' = Inr (s', r)"
            by (auto dest!: consChar_rest split: list.splits option.splits if_splits)
          from "2.IH"(1) [OF nq bs Cons u t refl refl refl h n p] show ?thesis
            by (simp add: Cons t)
        qed
      qed
    qed
  qed
qed

lemma skipWS_Cons_shorter: "skipWS s = c # cs \<Longrightarrow> length cs < length s"
proof -
  assume a: "skipWS s = c # cs"
  have "length (skipWS s) \<le> length s"
    unfolding skipWS_def by (rule length_dropWhile_le)
  with a show ?thesis by simp
qed

lemma parseDigits_shorter: "parseDigits s = Some (ds, r) \<Longrightarrow> length r < length s"
proof -
  assume a: "parseDigits s = Some (ds, r)"
  then have t: "takeWhile isDigit s \<noteq> []" and r: "r = dropWhile isDigit s"
    by (auto simp: parseDigits_def split: if_splits)
  have "length (takeWhile isDigit s) + length (dropWhile isDigit s) = length s"
    by (metis length_append takeWhile_dropWhile_id)
  with t r show ?thesis
    by (cases "takeWhile isDigit s") auto
qed

lemma parseInt_shorter: "parseInt s = Some (ip, r) \<Longrightarrow> length r < length s"
  by (auto simp: parseInt_def dest: parseDigits_shorter split: list.splits if_splits)

lemma parseFrac_shorter: "parseFrac s = Some (fp, r) \<Longrightarrow> length r \<le> length s"
  by (auto simp: parseFrac_def dest!: parseDigits_shorter split: list.splits if_splits option.splits)

lemma parseExp_shorter: "parseExp s = Some (ep, r) \<Longrightarrow> length r \<le> length s"
  by (auto simp: parseExp_def dest!: parseDigits_shorter split: list.splits if_splits option.splits)

lemma parseNumber_shorter:
  assumes "parseNumber s = Some (lexeme, r)"
  shows "length r < length s"
  using assms
  by (auto simp: parseNumber_def Let_def
           dest!: parseInt_shorter parseFrac_shorter parseExp_shorter
           split: list.splits if_splits option.splits)

lemma parse_shorter:
  "(parseValue f s = Inr (v, r) \<longrightarrow> length r < length s) \<and>
   (parseElements f s = Inr (vs, r) \<longrightarrow> length r < length s) \<and>
   (parseMembers f s = Inr (ms, r) \<longrightarrow> length r < length s)"
proof (induction f arbitrary: s v r vs ms)
  case 0
  show ?case by simp
next
  case (Suc n)
  have V: "\<And>s v r. parseValue n s = Inr (v, r) \<Longrightarrow> length r < length s"
    and E: "\<And>s vs r. parseElements n s = Inr (vs, r) \<Longrightarrow> length r < length s"
    and M: "\<And>s ms r. parseMembers n s = Inr (ms, r) \<Longrightarrow> length r < length s"
    using Suc.IH by blast+
  have 1: "length r < length s" if a: "parseValue (Suc n) s = Inr (v, r)"
  proof -
    from a obtain c cs where sk: "skipWS s = c # cs"
      by (auto split: list.splits)
    note l = skipWS_Cons_shorter [OF sk]
    from a sk l show ?thesis
      by (auto dest!: skipWS_Cons_shorter E M parseStringChars_shorter parseNumber_shorter
               split: list.splits if_splits sum.splits option.splits)
  qed
  have 2: "length r < length s" if a: "parseElements (Suc n) s = Inr (vs, r)"
  proof -
    from a obtain v0 r0 c cs where p: "parseValue n s = Inr (v0, r0)" and sk: "skipWS r0 = c # cs"
      by (auto split: list.splits sum.splits)
    note l = V [OF p] skipWS_Cons_shorter [OF sk]
    from a p sk l show ?thesis
      by (auto dest!: E split: if_splits sum.splits)
  qed
  have 3: "length r < length s" if a: "parseMembers (Suc n) s = Inr (ms, r)"
  proof -
    from a obtain s1 k s2 s3 v0 s4 c cs where
      sk1: "skipWS s = CHR 0x22 # s1" and ps: "parseStringChars s1 = Inr (k, s2)"
      and sk2: "skipWS s2 = CHR '':'' # s3" and pv: "parseValue n s3 = Inr (v0, s4)"
      and sk3: "skipWS s4 = c # cs"
      by (auto split: list.splits sum.splits if_splits)
    note l = skipWS_Cons_shorter [OF sk1] parseStringChars_shorter [OF ps]
      skipWS_Cons_shorter [OF sk2] V [OF pv] skipWS_Cons_shorter [OF sk3]
    from a sk1 ps sk2 pv sk3 l show ?thesis
      by (auto dest!: M split: if_splits sum.splits)
  qed
  from 1 2 3 show ?case by blast
qed

lemma consChar_error: "consChar c p = Inl e \<Longrightarrow> p = Inl e"
  by (auto simp: consChar_def split: sum.splits)

lemma parseStringChars_fuel: "parseStringChars s \<noteq> Inl FuelExhausted"
proof (induction s rule: parseStringChars.induct)
  case 1
  show ?case by simp
next
  case (2 c cs)
  show ?case
  proof
    assume a: "parseStringChars (c # cs) = Inl FuelExhausted"
    then have nq: "c \<noteq> CHR 0x22"
      by (auto split: if_splits)
    show False
    proof (cases "c = CHR 0x5C")
      case False
      with nq a have "parseStringChars cs = Inl FuelExhausted"
        by (auto dest!: consChar_error split: if_splits)
      with "2.IH"(3) [OF nq False] a nq False show False
        by (auto split: if_splits)
    next
      case bs: True
      with a nq obtain e t where Cons: "cs = e # t"
        by (cases cs) auto
      show False
      proof (cases "e = CHR ''u''")
        case False
        with a nq bs Cons obtain x where x: "unescape e = Some x"
          and "parseStringChars t = Inl FuelExhausted"
          by (auto dest!: consChar_error split: option.splits)
        with "2.IH"(2) [OF nq bs Cons False x] show False by simp
      next
        case u: True
        with a nq bs Cons obtain a' b c' d t' n where
          t: "t = a' # b # c' # d # t'" and h: "hex4 a' b c' d = Some n" and n: "n < 256"
          and p: "parseStringChars t' = Inl FuelExhausted"
          by (auto dest!: consChar_error split: list.splits option.splits if_splits)
        with "2.IH"(1) [OF nq bs Cons u t refl refl refl h n] show False by simp
      qed
    qed
  qed
qed

lemma parseValue_shorter: "parseValue f s = Inr (v, r) \<Longrightarrow> length r < length s"
  using parse_shorter [of f s v r] by blast

lemma parse_fuel:
  "(2 * length s < f \<longrightarrow> parseValue f s \<noteq> Inl FuelExhausted) \<and>
   (2 * length s + 2 \<le> f \<longrightarrow> parseElements f s \<noteq> Inl FuelExhausted) \<and>
   (2 * length s + 2 \<le> f \<longrightarrow> parseMembers f s \<noteq> Inl FuelExhausted)"
proof (induction f arbitrary: s)
  case 0
  show ?case by simp
next
  case (Suc n)
  have V: "\<And>s. 2 * length s < n \<Longrightarrow> parseValue n s \<noteq> Inl FuelExhausted"
    and E: "\<And>s. 2 * length s + 2 \<le> n \<Longrightarrow> parseElements n s \<noteq> Inl FuelExhausted"
    and M: "\<And>s. 2 * length s + 2 \<le> n \<Longrightarrow> parseMembers n s \<noteq> Inl FuelExhausted"
    using Suc.IH by blast+
  have 1: "parseValue (Suc n) s \<noteq> Inl FuelExhausted" if f: "2 * length s < Suc n"
  proof
    assume a: "parseValue (Suc n) s = Inl FuelExhausted"
    then obtain c cs where sk: "skipWS s = c # cs"
      by (auto split: list.splits)
    from skipWS_Cons_shorter [OF sk] f have "2 * length cs + 2 \<le> n"
      by simp
    from E [OF this] M [OF this] a sk parseStringChars_fuel [of cs] show False
      by (auto split: list.splits if_splits sum.splits option.splits)
  qed
  have 2: "parseElements (Suc n) s \<noteq> Inl FuelExhausted" if f: "2 * length s + 2 \<le> Suc n"
  proof
    assume a: "parseElements (Suc n) s = Inl FuelExhausted"
    from f have "2 * length s < n"
      by simp
    from V [OF this] a obtain v0 r0 c cs where
      p: "parseValue n s = Inr (v0, r0)" and sk: "skipWS r0 = c # cs"
      and e: "parseElements n cs = Inl FuelExhausted"
      by (auto split: list.splits sum.splits if_splits)
    from parseValue_shorter [OF p] skipWS_Cons_shorter [OF sk] f
    have "2 * length cs + 2 \<le> n"
      by simp
    from E [OF this] e show False ..
  qed
  have 3: "parseMembers (Suc n) s \<noteq> Inl FuelExhausted" if f: "2 * length s + 2 \<le> Suc n"
  proof
    assume a: "parseMembers (Suc n) s = Inl FuelExhausted"
    from a parseStringChars_fuel obtain s1 k s2 s3 where
      sk1: "skipWS s = CHR 0x22 # s1" and ps: "parseStringChars s1 = Inr (k, s2)"
      and sk2: "skipWS s2 = CHR '':'' # s3"
      by (auto split: list.splits sum.splits if_splits)
    from skipWS_Cons_shorter [OF sk1] parseStringChars_shorter [OF ps] skipWS_Cons_shorter [OF sk2] f
    have l3: "2 * length s3 < n" and l3': "length s3 + 3 \<le> length s"
      by simp_all
    from V [OF l3] a sk1 ps sk2 obtain v0 s4 c cs where
      pv: "parseValue n s3 = Inr (v0, s4)" and sk3: "skipWS s4 = c # cs"
      and e: "parseMembers n cs = Inl FuelExhausted"
      by (auto split: list.splits sum.splits if_splits)
    from parseValue_shorter [OF pv] skipWS_Cons_shorter [OF sk3] l3' f
    have "2 * length cs + 2 \<le> n"
      by simp
    from M [OF this] e show False ..
  qed
  from 1 2 3 show ?case by blast
qed

lemma JSON_parse_fuel: "JSON_parse s \<noteq> Inl FuelExhausted"
proof -
  have "parseValue (2 * length s + 2) s \<noteq> Inl FuelExhausted"
    using parse_fuel [of s "2 * length s + 2"] by simp
  then show ?thesis
    by (auto simp: JSON_parse_def split: sum.splits)
qed

lemma assignProperties_error: "assignProperties n kvs = Inl e \<Longrightarrow> e = OutsideModel"
  by (induction kvs arbitrary: n)
     (auto simp: assignProperty_def split: sum.splits json.splits if_splits)

lemma fromObj_error: "fromObj j w = Inl e \<Longrightarrow> e = OutsideModel"
  by (auto simp: fromObj_def newNote_def dest: assignProperties_error split: json.splits sum.splits)

lemma mapFromObj_error: "mapFromObj js w = Inl e \<Longrightarrow> e = OutsideModel"
  by (induction js arbitrary: w) (auto dest: fromObj_error split: sum.splits)

lemma getNotes_fuel: "getNotes w \<noteq> Inl FuelExhausted"
proof
  assume a: "getNotes w = Inl FuelExhausted"
  then show False
    using JSON_parse_fuel [of "getItemOr w NOTES_LOCAL_STORAGE_KEY ''[]''"]
    by (auto simp: getNotes_def dest: mapFromObj_error split: sum.splits json.splits)
qed

subsection \<open>Reading back the text of a list of notes\<close>

lemma parseValue_string:
  "parseValue (Suc n) (quoteJSONString s @ rest) = Inr (JString s, rest)"
  by (simp add: quoteJSONString_def skipWS_def isJSONWhiteSpace_def parseStringChars_quote)

lemma parseMembers_note:
  "parseMembers (Suc (Suc (Suc (Suc (Suc n))))) (tl (stringifyNote x) @ rest) = Inr ([(''uuid'', JString (uuid x)), (''title'', JString (title x)),
     (''content'', JString (content x)), (''color'', JString (color x))], rest)"
  by (simp add: stringifyNote_def skipWS_def isJSONWhiteSpace_def parseValue_string consChar_def del: parseValue.simps)

lemma parseValue_note:
  "parseValue (Suc (Suc (Suc (Suc (Suc (Suc n)))))) (stringifyNote x @ rest) = Inr (noteJson x, rest)"
proof -
  obtain t where s: "stringifyNote x = CHR ''{'' # CHR 0x22 # t"
    by (simp add: stringifyNote_def)
  have "parseMembers (Suc (Suc (Suc (Suc (Suc n))))) (CHR 0x22 # t @ rest) = Inr ([(''uuid'', JString (uuid x)), (''title'', JString (title x)),
     (''content'', JString (content x)), (''color'', JString (color x))], rest)"
    using parseMembers_note [of n x rest] by (simp add: s del: parseMembers.simps)
  then show ?thesis
    by (simp add: s noteJson_def skipWS_def isJSONWhiteSpace_def del: parseMembers.simps)
qed

lemma parseValue_note_fuel:
  assumes "6 \<le> f"
  shows "parseValue f (stringifyNote x @ rest) = Inr (noteJson x, rest)"
proof -
  from assms have "f = Suc (Suc (Suc (Suc (Suc (Suc (f - 6))))))"
    by simp
  then show ?thesis by (metis parseValue_note)
qed

lemma parseElements_notes:
  assumes "length xs + 7 \<le> f"
  shows "parseElements f (joinStrings '','' (map stringifyNote (x # xs)) @ CHR '']'' # rest)
           = Inr (map noteJson (x # xs), rest)"
  using assms
proof (induction xs arbitrary: x f)
  case Nil
  then obtain m where f: "f = Suc m" and m: "6 \<le> m"
    by (cases f) auto
  show ?case
    by (simp add: f parseValue_note_fuel [OF m] skipWS_def isJSONWhiteSpace_def del: parseValue.simps)
next
  case (Cons y ys)
  then obtain m where f: "f = Suc m" and m: "6 \<le> m" and m': "length ys + 7 \<le> m"
    by (cases f) auto
  have "parseElements m (joinStrings '','' (map stringifyNote (y # ys)) @ CHR '']'' # rest)
           = Inr (map noteJson (y # ys), rest)"
    by (rule Cons.IH [OF m'])
  then show ?case
    unfolding f
    by (subst parseElements.simps(2))
       (simp add: parseValue_note_fuel [OF m] skipWS_def isJSONWhiteSpace_def
             del: parseValue.simps parseElements.simps)
qed

lemma length_joinStrings_head: "length x \<le> length (joinStrings sep (x # xs))"
  by (cases xs) simp_all

lemma length_joinStrings_notes: "length xs \<le> length (joinStrings '','' (map stringifyNote xs))"
proof (induction xs rule: induct_list012)
  case 1
  then show ?case by simp
next
  case (2 x)
  then show ?case by (simp add: stringifyNote_def)
next
  case (3 x y zs)
  then show ?case by simp
qed

lemma JSON_parse_stringify:
  "JSON_parse (JSON_stringify xs) = Inr (JArray (map noteJson xs))"
proof (cases xs)
  case Nil
  then show ?thesis
    by (simp add: JSON_parse_def JSON_stringify_def skipWS_def isJSONWhiteSpace_def
          eval_nat_numeral)
next
  case (Cons y ys)
  define f where "f = 2 * length (JSON_stringify xs) + 1"
  have "length xs \<le> length (JSON_stringify xs)"
    using length_joinStrings_notes [of xs] by (simp add: JSON_stringify_def)
  moreover have "7 \<le> length (stringifyNote y)"
    by (simp add: stringifyNote_def)
  then have "7 \<le> length (JSON_stringify xs)"
    using length_joinStrings_head [of "stringifyNote y" "'',''" "map stringifyNote ys"]
    by (simp add: Cons JSON_stringify_def)
  ultimately have fuel: "length ys + 7 \<le> f"
    by (simp add: f_def Cons)
  define elems where "elems = joinStrings '','' (map stringifyNote (y # ys)) @ [CHR '']'']"
  have body: "parseElements f elems = Inr (map noteJson (y # ys), [])"
    unfolding elems_def by (rule parseElements_notes [OF fuel])
  obtain t where t: "elems = CHR ''{'' # t"
    unfolding elems_def by (cases ys) (simp_all add: stringifyNote_def)
  have whole: "JSON_stringify xs = CHR ''['' # elems"
    by (simp add: Cons JSON_stringify_def elems_def)
  have "skipWS elems = elems"
    by (simp add: t skipWS_def isJSONWhiteSpace_def)
  then have "parseValue (Suc f) (CHR ''['' # elems) = Inr (JArray (map noteJson xs), [])"
    using body t
    by (simp add: Cons skipWS_def isJSONWhiteSpace_def del: parseElements.simps)
  then have "parseValue (Suc f) (JSON_stringify xs) = Inr (JArray (map noteJson xs), [])"
    by (simp only: whole)
  then show ?thesis
    by (simp add: JSON_parse_def f_def skipWS_def)
qed

lemma assignProperties_noteJson:
  "fromObj (noteJson x) w = Inr (x, w\<lparr>uuidCalls := Suc (uuidCalls w)\<rparr>)"
  by (simp add: fromObj_def noteJson_def newNote_def assignProperty_def)

lemma mapFromObj_noteJson:
  "mapFromObj (map noteJson xs) w = Inr (xs, w\<lparr>uuidCalls := uuidCalls w + length xs\<rparr>)"
  by (induction xs arbitrary: w) (simp_all add: assignProperties_noteJson)


subsection \<open>What the store functions return\<close>

lemma mapFromObj_world:
  "mapFromObj js w = Inr (xs, w') \<Longrightarrow> w' = w\<lparr>uuidCalls := uuidCalls w + length xs\<rparr>"
proof (induction js arbitrary: w xs)
  case Nil
  then show ?case by simp
next
  case (Cons j js)
  from Cons.prems obtain n w1 ns where
    f: "fromObj j w = Inr (n, w1)" and m: "mapFromObj js w1 = Inr (ns, w')" and xs: "xs = n # ns"
    by (auto split: sum.splits)
  from f have w1: "w1 = w\<lparr>uuidCalls := Suc (uuidCalls w)\<rparr>"
    by (auto simp: fromObj_def newNote_def split: json.splits sum.splits)
  from Cons.IH [OF m] show ?case
    by (simp add: w1 xs)
qed

lemma getNotes_world:
  "getNotes w = Inr (xs, w') \<Longrightarrow> w' = w\<lparr>uuidCalls := uuidCalls w + length xs\<rparr>"
  by (auto simp: getNotes_def dest: mapFromObj_world split: sum.splits json.splits)

lemma getNotes_holds:
  assumes "holds w xs"
  shows "getNotes w = Inr (xs, w\<lparr>uuidCalls := uuidCalls w + length xs\<rparr>)"
  using assms by (simp add: holds_def getNotes_def JSON_parse_stringify mapFromObj_noteJson)

lemma holds_saveNotes: "holds (saveNotes xs w) xs"
  by (simp add: holds_def saveNotes_def getItemOr_def JSON_stringify_def)

lemma holds_empty: "localStorage w NOTES_LOCAL_STORAGE_KEY = None \<Longrightarrow> holds w []"
  by (simp add: holds_def getItemOr_def JSON_stringify_def)

lemma holds_empty_string: "localStorage w NOTES_LOCAL_STORAGE_KEY = Some [] \<Longrightarrow> holds w []"
  by (simp add: holds_def getItemOr_def JSON_stringify_def)

lemma listAll_holds: "holds w xs \<Longrightarrow> listAll w = Inr xs"
  by (simp add: listAll_def getNotes_holds)

lemma updateDisplayedNotes_result:
  assumes "getNotes w = Inr (xs, w1)"
  shows "updateDisplayedNotes v w = Inr (w1\<lparr>notesHtml := rendered v (searchTxt w) xs\<rparr>)"
  using assms by (simp add: updateDisplayedNotes_def rendered_def Let_def)


lemma holds_update:
  "holds (w\<lparr>uuidCalls := a\<rparr>) xs = holds w xs"
  "holds (w\<lparr>notesHtml := b\<rparr>) xs = holds w xs"
  "holds (w\<lparr>txtContent := c\<rparr>) xs = holds w xs"
  "holds (w\<lparr>addBtnDisabled := d\<rparr>) xs = holds w xs"
  "holds (w\<lparr>delAllHidden := e\<rparr>) xs = holds w xs"
  "holds (w\<lparr>dialogs := f\<rparr>) xs = holds w xs"
  "holds (w\<lparr>searchTxt := g\<rparr>) xs = holds w xs"
  by (simp_all add: holds_def getItemOr_def)

lemma updateDisplayedNotes_holds:
  assumes "holds w xs"
  shows "updateDisplayedNotes v w =
           Inr (w\<lparr>uuidCalls := uuidCalls w + length xs, notesHtml := rendered v (searchTxt w) xs\<rparr>)"
  by (simp add: updateDisplayedNotes_result [OF getNotes_holds [OF assms]])

lemma saveNewNote_result:
  assumes "getNotes w = Inr (xs, w1)"
  shows "saveNewNote n w = Inr (saveNotes (xs @ [n]) w1)"
  using assms by (simp add: saveNewNote_def)

lemma deleteNote_result:
  assumes "getNotes w = Inr (xs, w1)"
  shows "\<exists>w'. deleteNote v x w = Inr w' \<and> holds w' (filter (\<lambda>n. uuid n \<noteq> x) xs) \<and>
              dialogs w' = dialogs w \<and> delAllHidden w' = delAllHidden w"
proof -
  define ys where "ys = filter (\<lambda>n. uuid n \<noteq> x) xs"
  define w2 where "w2 = saveNotes ys w1"
  define w3 where "w3 = w2\<lparr>uuidCalls := uuidCalls w2 + length ys, notesHtml := rendered v (searchTxt w2) ys\<rparr>"
  have w1: "w1 = w\<lparr>uuidCalls := uuidCalls w + length xs\<rparr>"
    by (rule getNotes_world [OF assms])
  have h: "holds w2 ys"
    unfolding w2_def by (rule holds_saveNotes)
  have d: "deleteNote v x w = updateDisplayedNotes v w2"
    using assms by (simp add: deleteNote_def w2_def ys_def)
  have u: "updateDisplayedNotes v w2 = Inr w3"
    unfolding w3_def by (rule updateDisplayedNotes_holds [OF h])
  have h3: "holds w3 ys"
    using h by (simp add: w3_def holds_update)
  have f: "dialogs w3 = dialogs w" "delAllHidden w3 = delAllHidden w"
    by (simp_all add: w3_def w2_def w1 saveNotes_def)
  show ?thesis
    using d u h3 f by (simp add: ys_def)
qed

lemma listAll_getNotes: "listAll w = Inr xs \<Longrightarrow> \<exists>w1. getNotes w = Inr (xs, w1)"
  by (auto simp: listAll_def split: sum.splits)

subsection \<open>Sequences of store operations, on lists\<close>



lemma set_survivors: "set (survivors ops) \<subseteq> set (appended ops)"
proof (induction ops)
  case Nil
  then show ?case by simp
next
  case (Cons op ops)
  then show ?case by (cases op) auto
qed

lemma distinct_survivors:
  assumes "distinct (map uuid (appended ops))"
  shows "distinct (map uuid (survivors ops))"
  using assms
proof (induction ops)
  case Nil
  then show ?case by simp
next
  case (Cons op ops)
  show ?case
  proof (cases op)
    case (Append n)
    with Cons.prems have fresh: "uuid n \<notin> uuid ` set (appended ops)"
      and rest: "distinct (map uuid (appended ops))"
      by simp_all
    from fresh set_survivors [of ops] have "uuid n \<notin> uuid ` set (survivors ops)"
      by blast
    with Cons.IH [OF rest] show ?thesis
      by (simp add: Append)
  next
    case (RemoveById x)
    with Cons show ?thesis by simp
  qed
qed

subsection \<open>The filter and the display\<close>

lemma str_includes_sublist: "str_includes hay needle \<longleftrightarrow> sublist needle hay"
proof (induction hay)
  case Nil
  show ?case by simp
next
  case (Cons c cs)
  show ?case
  proof (cases needle)
    case Nil
    then show ?thesis by simp
  next
    case (Cons x xs)
    with Cons.IH show ?thesis
      by (simp add: sublist_Cons_right)
  qed
qed

lemma str_includes_iff:
  "str_includes hay needle \<longleftrightarrow> (\<exists>before after. hay = before @ needle @ after)"
  by (simp add: str_includes_sublist sublist_def)

lemma matchedNotes_iff:
  "n \<in> set (matchedNotes searchText ns) \<longleftrightarrow>
     n \<in> set ns \<and>
     (sublist (toLowerCase searchText) (title n) \<or> sublist (toLowerCase searchText) (content n))"
  by (simp add: matchedNotes_def str_includes_sublist)



lemma matchedNotes_Nil: "matchedNotes s [] = []"
  by (simp add: matchedNotes_def)


lemma shownAfterSearch_holds:
  assumes "holds w xs"
  shows "shownAfterSearch v text w = Inr (rendered v text xs)"
proof -
  have "holds (w\<lparr>searchTxt := text\<rparr>) xs"
    using assms by (simp add: holds_update)
  from updateDisplayedNotes_holds [OF this, of v] show ?thesis
    by (simp add: shownAfterSearch_def searchInput_def)
qed

lemma specMatches_groceries: "specMatches ''Groceries'' groceries"
  by code_simp

lemma matchedNotes_groceries: "matchedNotes ''Groceries'' [groceries] = []"
  by code_simp

subsection \<open>Reading a store that another world could read\<close>

lemma assignProperty_ok:
  "assignProperty n kv = Inr m \<Longrightarrow> \<exists>m'. assignProperty n' kv = Inr m'"
  by (auto simp: assignProperty_def split: json.splits if_splits)

lemma assignProperties_ok:
  "assignProperties n kvs = Inr m \<Longrightarrow> \<exists>m'. assignProperties n' kvs = Inr m'"
proof (induction kvs arbitrary: n n')
  case Nil
  then show ?case by simp
next
  case (Cons kv kvs)
  from Cons.prems obtain n1 where a: "assignProperty n kv = Inr n1"
    and r: "assignProperties n1 kvs = Inr m"
    by (auto split: sum.splits)
  from assignProperty_ok [OF a] obtain n1' where a': "assignProperty n' kv = Inr n1'" ..
  from Cons.IH [OF r] obtain m' where "assignProperties n1' kvs = Inr m'" ..
  with a' show ?case by simp
qed

lemma fromObj_ok:
  assumes "fromObj j w = Inr (n, w1)"
  shows "\<exists>n'. fromObj j w' = Inr (n', w'\<lparr>uuidCalls := Suc (uuidCalls w')\<rparr>)"
proof (cases j)
  case (JObject kvs)
  with assms obtain n0 where "assignProperties n0 kvs = Inr n"
    by (auto simp: fromObj_def newNote_def split: sum.splits)
  from assignProperties_ok [OF this,
      of "\<lparr>uuid = randomUUID w' (uuidCalls w'), title = [], content = [], color = ''white''\<rparr>"]
  obtain m' where
    "assignProperties \<lparr>uuid = randomUUID w' (uuidCalls w'), title = [], content = [], color = ''white''\<rparr> kvs = Inr m'" ..
  then show ?thesis
    by (simp add: JObject fromObj_def newNote_def)
qed (use assms in \<open>simp_all add: fromObj_def newNote_def\<close>)

lemma mapFromObj_ok:
  "mapFromObj js w = Inr (xs, w1) \<Longrightarrow>
   \<exists>ys. mapFromObj js w' = Inr (ys, w'\<lparr>uuidCalls := uuidCalls w' + length ys\<rparr>) \<and> length ys = length xs"
proof (induction js arbitrary: w w' xs)
  case Nil
  then show ?case by simp
next
  case (Cons j js)
  from Cons.prems obtain n w2 ns where
    f: "fromObj j w = Inr (n, w2)" and m: "mapFromObj js w2 = Inr (ns, w1)" and xs: "xs = n # ns"
    by (auto split: sum.splits)
  from fromObj_ok [OF f, of w'] obtain n' where
    f': "fromObj j w' = Inr (n', w'\<lparr>uuidCalls := Suc (uuidCalls w')\<rparr>)" ..
  from Cons.IH [OF m, of "w'\<lparr>uuidCalls := Suc (uuidCalls w')\<rparr>"] obtain ys where
    m': "mapFromObj js (w'\<lparr>uuidCalls := Suc (uuidCalls w')\<rparr>)
           = Inr (ys, w'\<lparr>uuidCalls := Suc (uuidCalls w') + length ys\<rparr>)"
    and l: "length ys = length ns"
    by auto
  show ?case
    by (rule exI [of _ "n' # ys"]) (simp add: f' m' l xs)
qed

lemma getNotes_same_storage:
  assumes "getNotes w = Inr (xs, w1)" and "localStorage w' = localStorage w"
  shows "\<exists>ys. getNotes w' = Inr (ys, w'\<lparr>uuidCalls := uuidCalls w' + length ys\<rparr>) \<and> length ys = length xs"
proof -
  have g: "getItemOr w' NOTES_LOCAL_STORAGE_KEY ''[]'' = getItemOr w NOTES_LOCAL_STORAGE_KEY ''[]''"
    using assms(2) by (simp add: getItemOr_def)
  from assms(1) obtain js where
    p: "JSON_parse (getItemOr w NOTES_LOCAL_STORAGE_KEY ''[]'') = Inr (JArray js)"
    and m: "mapFromObj js w = Inr (xs, w1)"
    by (auto simp: getNotes_def split: sum.splits json.splits)
  from mapFromObj_ok [OF m, of w'] show ?thesis
    by (simp add: getNotes_def g p)
qed

subsection \<open>The handlers of the page\<close>

lemma visibility_result:
  assumes "getNotes w = Inr (xs, w1)"
  shows "updateDeleteAllNotesButtonVisibility w = Inr (w1\<lparr>delAllHidden := (xs = [])\<rparr>)"
  using assms by (simp add: updateDeleteAllNotesButtonVisibility_def)

lemma visibility_explicit:
  assumes "getNotes w = Inr (xs, w1)"
  shows "visibilityMatchesStore (w1\<lparr>delAllHidden := (xs = [])\<rparr>)"
proof -
  let ?w' = "w1\<lparr>delAllHidden := (xs = [])\<rparr>"
  have "w1 = w\<lparr>uuidCalls := uuidCalls w + length xs\<rparr>"
    by (rule getNotes_world [OF assms])
  then have "localStorage ?w' = localStorage w"
    by simp
  from getNotes_same_storage [OF assms this] obtain ys w2 where
    "getNotes ?w' = Inr (ys, w2)" and "length ys = length xs"
    by blast
  then show ?thesis
    by (auto simp: visibilityMatchesStore_def listAll_def)
qed

lemma visibility_after:
  assumes "getNotes w = Inr (xs, w1)"
  shows "\<exists>w'. updateDeleteAllNotesButtonVisibility w = Inr w' \<and> visibilityMatchesStore w'"
  using visibility_explicit [OF assms] by (simp add: visibility_result [OF assms])

lemma updateDisplayedNotes_readable:
  assumes "getNotes w = Inr (xs, w1)"
  shows "\<exists>w' ys w2. updateDisplayedNotes v w = Inr w' \<and> getNotes w' = Inr (ys, w2)"
proof -
  let ?w' = "w1\<lparr>notesHtml := rendered v (searchTxt w) xs\<rparr>"
  have "w1 = w\<lparr>uuidCalls := uuidCalls w + length xs\<rparr>"
    by (rule getNotes_world [OF assms])
  then have "localStorage ?w' = localStorage w"
    by simp
  from getNotes_same_storage [OF assms this] show ?thesis
    by (auto simp: updateDisplayedNotes_result [OF assms])
qed

lemma initPage_visibility:
  assumes "getNotes w = Inr (xs, w1)"
  shows "\<exists>w'. initPage Part000 w = Inr w' \<and> visibilityMatchesStore w'"
proof -
  from updateDisplayedNotes_readable [OF assms, of Part000] obtain wa ys w2 where
    u: "updateDisplayedNotes Part000 w = Inr wa" and g: "getNotes wa = Inr (ys, w2)"
    by blast
  from visibility_after [OF g] u show ?thesis
    by (simp add: initPage_def)
qed

lemma deleteLink_visibility:
  assumes "getNotes w = Inr (xs, w1)"
  shows "\<exists>w'. handleDeleteNoteLinkClick True x w = Inr w' \<and> visibilityMatchesStore w'"
proof -
  let ?w0 = "showDialog confirmDeleteNote w"
  have "localStorage ?w0 = localStorage w"
    by (simp add: showDialog_def)
  from getNotes_same_storage [OF assms this] obtain ys w2 where "getNotes ?w0 = Inr (ys, w2)"
    by blast
  from deleteNote_result [OF this, of Part000 x] obtain wa where
    d: "deleteNote Part000 x ?w0 = Inr wa" and h: "holds wa (filter (\<lambda>n. uuid n \<noteq> x) ys)"
    by blast
  from visibility_after [OF getNotes_holds [OF h]] d show ?thesis
    by (simp add: handleDeleteNoteLinkClick_def)
qed

lemma deleteAllNotes_result:
  "deleteAllNotes v w = Inr ((saveNotes [] w)\<lparr>notesHtml := nothingToShow\<rparr>)"
  using updateDisplayedNotes_holds [OF holds_saveNotes, of v "[]" w]
  by (simp add: deleteAllNotes_def rendered_def matchedNotes_def)

lemma deleteAll_visibility:
  "\<exists>w'. btnDeleteAllNotesClick True w = Inr w' \<and> visibilityMatchesStore w'"
proof -
  let ?w0 = "showDialog confirmDeleteAll w"
  let ?wa = "(saveNotes [] ?w0)\<lparr>notesHtml := nothingToShow\<rparr>"
  have "holds ?wa []"
    by (simp add: holds_update holds_saveNotes)
  from visibility_after [OF getNotes_holds [OF this]] show ?thesis
    by (simp add: btnDeleteAllNotesClick_def deleteAllNotes_result)
qed

lemma addClick_steps:
  assumes g: "getNotes (w\<lparr>addBtnDisabled := True, uuidCalls := Suc (uuidCalls w)\<rparr>) = Inr (ys, wy)"
  shows "\<exists>w'. addClick v w = Inr w' \<and>
              holds w' (ys @ [\<lparr>uuid = randomUUID w (uuidCalls w),
                               title = (if trim (inpTitle w) = [] then ''Untitled'' else trim (inpTitle w)),
                               content = txtContent w,
                               color = selectorColor w\<rparr>]) \<and>
              txtContent w' = [] \<and> addBtnDisabled w' \<and>
              (v = Part000 \<longrightarrow> visibilityMatchesStore w')"
proof -
  define n where "n = \<lparr>uuid = randomUUID w (uuidCalls w),
                        title = (if trim (inpTitle w) = [] then ''Untitled'' else trim (inpTitle w)),
                        content = txtContent w,
                        color = selectorColor w\<rparr>"
  define w1 where "w1 = w\<lparr>addBtnDisabled := True, uuidCalls := Suc (uuidCalls w)\<rparr>"
  define w2 where "w2 = (saveNotes (ys @ [n]) wy)\<lparr>txtContent := []\<rparr>"
  define w3 where "w3 = w2\<lparr>uuidCalls := uuidCalls w2 + length (ys @ [n]),
                           notesHtml := rendered v (searchTxt w2) (ys @ [n])\<rparr>"
  define w4 where "w4 = w3\<lparr>uuidCalls := uuidCalls w3 + length (ys @ [n]),
                           delAllHidden := (ys @ [n] = [])\<rparr>"
  have wy: "wy = w1\<lparr>uuidCalls := uuidCalls w1 + length ys\<rparr>"
    using getNotes_world [OF g] by (simp add: w1_def)
  have s: "saveNewNote n w1 = Inr (saveNotes (ys @ [n]) wy)"
    using g by (simp add: saveNewNote_result w1_def)
  have h2: "holds w2 (ys @ [n])"
    by (simp add: w2_def holds_update holds_saveNotes)
  have u: "updateDisplayedNotes v w2 = Inr w3"
    unfolding w3_def by (rule updateDisplayedNotes_holds [OF h2])
  have h3: "holds w3 (ys @ [n])"
    using h2 by (simp add: w3_def holds_update)
  have f3: "txtContent w3 = []" "addBtnDisabled w3"
    by (simp_all add: w3_def w2_def wy w1_def saveNotes_def)
  have g3: "getNotes w3 = Inr (ys @ [n], w3\<lparr>uuidCalls := uuidCalls w3 + length (ys @ [n])\<rparr>)"
    by (rule getNotes_holds [OF h3])
  have v4: "updateDeleteAllNotesButtonVisibility w3 = Inr w4"
    unfolding w4_def by (rule visibility_result [OF g3])
  have h4: "holds w4 (ys @ [n])"
    using h3 by (simp add: w4_def holds_update)
  have f4: "txtContent w4 = []" "addBtnDisabled w4"
    using f3 by (simp_all add: w4_def)
  have m4: "visibilityMatchesStore w4"
    unfolding w4_def by (rule visibility_explicit [OF g3])
  have "addClick v w =
          (case saveNewNote n w1 of
             Inl e \<Rightarrow> Inl e
           | Inr wa \<Rightarrow>
               (case updateDisplayedNotes v (wa\<lparr>txtContent := []\<rparr>) of
                  Inl e \<Rightarrow> Inl e
                | Inr wb \<Rightarrow>
                    (case v of AppJs \<Rightarrow> Inr wb | Part000 \<Rightarrow> updateDeleteAllNotesButtonVisibility wb)))"
    by (simp add: addClick_def newNote_def Let_def n_def w1_def split del: if_split cong: if_cong)
  also have "\<dots> = (case v of AppJs \<Rightarrow> Inr w3 | Part000 \<Rightarrow> Inr w4)"
    using u v4 by (simp add: s w2_def [symmetric] split: version.splits)
  finally have a: "addClick v w = (case v of AppJs \<Rightarrow> Inr w3 | Part000 \<Rightarrow> Inr w4)" .
  show ?thesis
  proof (cases v)
    case AppJs
    with a h3 f3 show ?thesis by (simp add: n_def)
  next
    case Part000
    with a h4 f4 m4 show ?thesis by (simp add: n_def)
  qed
qed

lemma addClick_holds:
  assumes "holds w xs"
  shows "\<exists>w'. addClick v w = Inr w' \<and>
              listAll w' = Inr (xs @ [\<lparr>uuid = randomUUID w (uuidCalls w),
                               title = (if trim (inpTitle w) = [] then ''Untitled'' else trim (inpTitle w)),
                               content = txtContent w,
                               color = selectorColor w\<rparr>]) \<and>
              txtContent w' = [] \<and> addBtnDisabled w'"
proof -
  have "holds (w\<lparr>addBtnDisabled := True, uuidCalls := Suc (uuidCalls w)\<rparr>) xs"
    using assms by (simp add: holds_update)
  from addClick_steps [OF getNotes_holds [OF this], of v] show ?thesis
    by (auto simp: listAll_holds)
qed

lemma addClick_readable:
  assumes "getNotes w = Inr (xs, w1)"
  shows "\<exists>w'. addClick Part000 w = Inr w' \<and> visibilityMatchesStore w'"
proof -
  have "localStorage (w\<lparr>addBtnDisabled := True, uuidCalls := Suc (uuidCalls w)\<rparr>) = localStorage w"
    by simp
  from getNotes_same_storage [OF assms this] obtain ys wy where
    "getNotes (w\<lparr>addBtnDisabled := True, uuidCalls := Suc (uuidCalls w)\<rparr>) = Inr (ys, wy)"
    by blast
  from addClick_steps [OF this, of Part000] show ?thesis
    by blast
qed

lemma trim_blank: "trim ''   '' = []"
  by (simp add: trim_def isWhiteSpace_def)

lemma deleteNote_dialogs:
  assumes "deleteNote v x w = Inr w'"
  shows "dialogs w' = dialogs w"
proof -
  from assms obtain xs w1 where "getNotes w = Inr (xs, w1)"
    by (auto simp: deleteNote_def split: sum.splits)
  from deleteNote_result [OF this, of v x] assms show ?thesis
    by auto
qed

lemma visibility_dialogs:
  assumes "updateDeleteAllNotesButtonVisibility w = Inr w'"
  shows "dialogs w' = dialogs w"
proof -
  from assms obtain xs w1 where g: "getNotes w = Inr (xs, w1)"
    by (auto simp: updateDeleteAllNotesButtonVisibility_def split: sum.splits)
  from visibility_result [OF g] assms getNotes_world [OF g] show ?thesis
    by auto
qed

lemma askedFirst_showDialog:
  "dialogs w' = dialogs (showDialog d w) \<Longrightarrow> askedFirst d w w'"
  by (simp add: askedFirst_def showDialog_def)

lemma handleDeleteNoteLinkClick_asks:
  assumes "handleDeleteNoteLinkClick True x w = Inr w'"
  shows "askedFirst confirmDeleteNote w w'"
proof -
  from assms obtain w2 where d: "deleteNote Part000 x (showDialog confirmDeleteNote w) = Inr w2"
    and u: "updateDeleteAllNotesButtonVisibility w2 = Inr w'"
    by (auto simp: handleDeleteNoteLinkClick_def split: sum.splits)
  from deleteNote_dialogs [OF d] visibility_dialogs [OF u] show ?thesis
    by (simp add: askedFirst_showDialog)
qed

lemma btnDeleteAllNotesClick_asks:
  assumes "btnDeleteAllNotesClick True w = Inr w'"
  shows "askedFirst confirmDeleteAll w w'"
proof -
  from assms have
    "updateDeleteAllNotesButtonVisibility
       ((saveNotes [] (showDialog confirmDeleteAll w))\<lparr>notesHtml := nothingToShow\<rparr>) = Inr w'"
    by (simp add: btnDeleteAllNotesClick_def deleteAllNotes_result)
  from visibility_dialogs [OF this] show ?thesis
    by (simp add: askedFirst_def showDialog_def saveNotes_def)
qed

lemma delAllBtnClick_asks:
  assumes "delAllBtnClick (Some ''delete'') w = Inr w'"
  shows "askedFirst promptDeleteAll w w'"
  using assms
  by (auto simp: delAllBtnClick_def deleteAllNotes_result askedFirst_def showDialog_def saveNotes_def)

subsection \<open>Operations of the page, with identifiers that never repeat\<close>

lemma addClick_appendNew:
  "addClick v w =
     (case appendNew (if trim (inpTitle w) = [] then ''Untitled'' else trim (inpTitle w))
             (txtContent w) (selectorColor w) (w\<lparr>addBtnDisabled := True\<rparr>) of
        Inl e \<Rightarrow> Inl e
      | Inr (n, w2) \<Rightarrow>
          (case updateDisplayedNotes v (w2\<lparr>txtContent := []\<rparr>) of
             Inl e \<Rightarrow> Inl e
           | Inr w3 \<Rightarrow>
               (case v of AppJs \<Rightarrow> Inr w3 | Part000 \<Rightarrow> updateDeleteAllNotesButtonVisibility w3)))"
  by (simp add: addClick_def appendNew_def newNote_def Let_def split: sum.splits split del: if_split cong: if_cong)







subsection \<open>What every event of the page preserves\<close>



lemma readable_holds: "holds w xs \<Longrightarrow> readable w"
  by (simp add: readable_def listAll_holds)

lemma updateDisplayedNotes_shape:
  assumes "updateDisplayedNotes v w = Inr w'"
  shows "\<exists>a b. w' = w\<lparr>uuidCalls := a, notesHtml := b\<rparr>"
proof -
  from assms obtain xs w1 where g: "getNotes w = Inr (xs, w1)"
    by (auto simp: updateDisplayedNotes_def split: sum.splits)
  from updateDisplayedNotes_result [OF g, of v] assms getNotes_world [OF g] show ?thesis
    by auto
qed


lemma deleteNote_shape:
  assumes "deleteNote v x w = Inr w'"
  shows "\<exists>a b c. w' = w\<lparr>localStorage := c, uuidCalls := a, notesHtml := b\<rparr> \<and> readable w'"
proof -
  from assms obtain xs w1 where g: "getNotes w = Inr (xs, w1)"
    by (auto simp: deleteNote_def split: sum.splits)
  have w1: "w1 = w\<lparr>uuidCalls := uuidCalls w + length xs\<rparr>"
    by (rule getNotes_world [OF g])
  from assms g have u: "updateDisplayedNotes v (saveNotes (filter (\<lambda>n. uuid n \<noteq> x) xs) w1) = Inr w'"
    by (simp add: deleteNote_def)
  from updateDisplayedNotes_shape [OF u] obtain a b where
    w': "w' = (saveNotes (filter (\<lambda>n. uuid n \<noteq> x) xs) w1)\<lparr>uuidCalls := a, notesHtml := b\<rparr>"
    by blast
  have "holds w' (filter (\<lambda>n. uuid n \<noteq> x) xs)"
    by (simp add: w' holds_update holds_saveNotes)
  then have "readable w'"
    by (rule readable_holds)
  moreover have "\<exists>a b c. w' = w\<lparr>localStorage := c, uuidCalls := a, notesHtml := b\<rparr>"
    by (auto simp: w' w1 saveNotes_def)
  ultimately show ?thesis by blast
qed















lemma initPage_freshPage:
  "initPage Part000 freshPage = Inr (freshPage\<lparr>notesHtml := nothingToShow, delAllHidden := True\<rparr>)"
  "initPage AppJs freshPage = Inr (freshPage\<lparr>notesHtml := nothingToShow\<rparr>)"
proof -
  have h: "holds freshPage []"
    by (rule holds_empty) (simp add: freshPage_def)
  have u: "updateDisplayedNotes v freshPage = Inr (freshPage\<lparr>notesHtml := nothingToShow\<rparr>)" for v
    using updateDisplayedNotes_holds [OF h, of v] by (simp add: rendered_def matchedNotes_Nil)
  have "holds (freshPage\<lparr>notesHtml := nothingToShow\<rparr>) []"
    using h by (simp add: holds_update)
  from visibility_result [OF getNotes_holds [OF this]]
  show "initPage Part000 freshPage = Inr (freshPage\<lparr>notesHtml := nothingToShow, delAllHidden := True\<rparr>)"
    by (simp add: initPage_def u)
  show "initPage AppJs freshPage = Inr (freshPage\<lparr>notesHtml := nothingToShow\<rparr>)"
    by (simp add: initPage_def u)
qed

subsection \<open>The "delete all" button of the first script\<close>

lemma updateDisplayedNotes_hidden:
  "updateDisplayedNotes v w = Inr w' \<Longrightarrow> delAllHidden w' = delAllHidden w"
  using updateDisplayedNotes_shape [of v w w'] by auto

lemma deleteNote_hidden:
  "deleteNote v x w = Inr w' \<Longrightarrow> delAllHidden w' = delAllHidden w"
  using deleteNote_shape [of v x w w'] by auto

lemma appendNew_hidden:
  assumes "appendNew t c col w = Inr (n, w')"
  shows "delAllHidden w' = delAllHidden w"
proof -
  from assms obtain xs wy where
    g: "getNotes (w\<lparr>uuidCalls := Suc (uuidCalls w)\<rparr>) = Inr (xs, wy)"
    and w': "w' = saveNotes (xs @ [n]) wy"
    by (auto simp: appendNew_def newNote_def saveNewNote_def split: sum.splits)
  from getNotes_world [OF g] show ?thesis
    by (simp add: w' saveNotes_def)
qed

lemma addClick_AppJs_hidden:
  assumes "addClick AppJs w = Inr w'"
  shows "delAllHidden w' = delAllHidden w"
proof -
  from assms obtain n w2 where
    a: "appendNew (if trim (inpTitle w) = [] then ''Untitled'' else trim (inpTitle w))
          (txtContent w) (selectorColor w) (w\<lparr>addBtnDisabled := True\<rparr>) = Inr (n, w2)"
    and u: "updateDisplayedNotes AppJs (w2\<lparr>txtContent := []\<rparr>) = Inr w'"
    by (auto simp: addClick_appendNew split: sum.splits)
  from appendNew_hidden [OF a] updateDisplayedNotes_hidden [OF u] show ?thesis
    by simp
qed

lemma initPage_AppJs_hidden:
  "initPage AppJs w = Inr w' \<Longrightarrow> delAllHidden w' = delAllHidden w"
  by (auto simp: initPage_def dest: updateDisplayedNotes_hidden split: sum.splits)

lemma delAllBtnClick_hidden:
  "delAllBtnClick typed w = Inr w' \<Longrightarrow> delAllHidden w' = delAllHidden w"
  by (auto simp: delAllBtnClick_def Let_def deleteAllNotes_result showDialog_def saveNotes_def
           split: if_splits)

subsection \<open>The claims\<close>

text \<open>
  C7. When nothing has ever been stored under the notes key, \<^verbatim>\<open>getNotes\<close> returns the empty
  list: it raises nothing and leaves the world as it was.
\<close>

theorem C7_absent_blob_is_empty:
  assumes "localStorage w NOTES_LOCAL_STORAGE_KEY = None"
  shows "getNotes w = Inr ([], w) \<and> listAll w = Inr []"
  using getNotes_holds [OF holds_empty [OF assms]] by (simp add: listAll_def)

theorem C7_absent_blob_is_empty_witness:
  "localStorage freshPage NOTES_LOCAL_STORAGE_KEY = None \<and>
   getNotes freshPage = Inr ([], freshPage) \<and> listAll freshPage = Inr []"
proof -
  have h: "localStorage freshPage NOTES_LOCAL_STORAGE_KEY = None"
    by (simp add: freshPage_def)
  show ?thesis
    using h C7_absent_blob_is_empty [OF h] by simp
qed

text \<open>
  C10. A stored empty string is falsy, so \<^verbatim>\<open>getNotes\<close> parses \<^verbatim>\<open>"[]"\<close> in its place: the result
  is the empty list, the same as with the entry removed, and no \<open>SyntaxError\<close>.
\<close>

theorem C10_empty_string_blob_is_empty:
  assumes "localStorage w NOTES_LOCAL_STORAGE_KEY = Some []"
  shows "getNotes w = Inr ([], w) \<and> listAll w = Inr [] \<and>
         listAll w = listAll (w\<lparr>localStorage := (localStorage w)(NOTES_LOCAL_STORAGE_KEY := None)\<rparr>)"
proof -
  have a: "getNotes w = Inr ([], w)"
    using getNotes_holds [OF holds_empty_string [OF assms]] by simp
  have b: "holds (w\<lparr>localStorage := (localStorage w)(NOTES_LOCAL_STORAGE_KEY := None)\<rparr>) []"
    by (rule holds_empty) simp
  show ?thesis
    using a listAll_holds [OF b] by (simp add: listAll_def)
qed

theorem C10_empty_string_blob_is_empty_witness:
  "localStorage (freshPage\<lparr>localStorage := [NOTES_LOCAL_STORAGE_KEY \<mapsto> []]\<rparr>) NOTES_LOCAL_STORAGE_KEY = Some [] \<and>
   listAll (freshPage\<lparr>localStorage := [NOTES_LOCAL_STORAGE_KEY \<mapsto> []]\<rparr>) = Inr []"
proof -
  have h: "localStorage (freshPage\<lparr>localStorage := [NOTES_LOCAL_STORAGE_KEY \<mapsto> []]\<rparr>) NOTES_LOCAL_STORAGE_KEY = Some []"
    by simp
  show ?thesis
    using h C10_empty_string_blob_is_empty [OF h] by simp
qed

text \<open>
  C3. \<^verbatim>\<open>saveNotes(notes)\<close> followed by \<^verbatim>\<open>getNotes()\<close> returns the notes given, in their order
  and with the four fields of each: writing the JSON text and reading it back is the
  identity on lists of notes.
\<close>

theorem C3_save_then_get_roundtrip:
  "listAll (saveNotes notes w) = Inr notes"
  by (rule listAll_holds [OF holds_saveNotes])

text \<open>
  C5. \<^verbatim>\<open>deleteNote(x)\<close> on a readable store returns normally; afterwards the store lists the
  notes whose \<open>uuid\<close> is not \<open>x\<close>, in their order. If no note has the \<open>uuid\<close> \<open>x\<close> the list is
  the one before, and a second \<^verbatim>\<open>deleteNote(x)\<close> right after the first changes nothing.
\<close>

theorem C5_deleteNote_removes_exactly:
  assumes "listAll w = Inr notes"
  shows "\<exists>w'. deleteNote v x w = Inr w' \<and>
              listAll w' = Inr (filter (\<lambda>n. uuid n \<noteq> x) notes) \<and>
              (x \<notin> uuid ` set notes \<longrightarrow> listAll w' = Inr notes) \<and>
              (\<exists>w''. deleteNote v x w' = Inr w'' \<and> listAll w'' = listAll w')"
proof -
  let ?ys = "filter (\<lambda>n. uuid n \<noteq> x) notes"
  from listAll_getNotes [OF assms] obtain w1 where g: "getNotes w = Inr (notes, w1)" ..
  from deleteNote_result [OF g] obtain w' where
    d: "deleteNote v x w = Inr w'" and h: "holds w' ?ys"
    by blast
  have absent: "x \<notin> uuid ` set notes \<Longrightarrow> ?ys = notes"
    by (simp add: filter_id_conv image_iff) blast
  from deleteNote_result [OF getNotes_holds [OF h]] obtain w'' where
    d2: "deleteNote v x w' = Inr w''" and h2: "holds w'' (filter (\<lambda>n. uuid n \<noteq> x) ?ys)"
    by blast
  have "filter (\<lambda>n. uuid n \<noteq> x) ?ys = ?ys"
    by simp
  with h2 have "listAll w'' = Inr ?ys"
    by (simp add: listAll_holds)
  with d d2 absent show ?thesis
    by (auto simp: listAll_holds [OF h])
qed

theorem C5_deleteNote_removes_exactly_witness:
  "listAll (saveNotes [groceries] freshPage) = Inr [groceries] \<and>
   (\<exists>w'. deleteNote Part000 ''uuid-'' (saveNotes [groceries] freshPage) = Inr w' \<and> listAll w' = Inr []) \<and>
   (\<exists>w'. deleteNote Part000 ''other'' (saveNotes [groceries] freshPage) = Inr w' \<and> listAll w' = Inr [groceries])"
proof -
  have h: "listAll (saveNotes [groceries] freshPage) = Inr [groceries]"
    by (rule listAll_holds [OF holds_saveNotes])
  show ?thesis
    using h C5_deleteNote_removes_exactly [OF h, of Part000 "''uuid-''"]
      C5_deleteNote_removes_exactly [OF h, of Part000 "''other''"]
    by (auto simp: groceries_def)
qed





text \<open>
  C2. The specification's filter lower-cases the note's fields as well as the search text;
  the scripts lower-case the search text only. For the note of scenario B and the search
  text \<^verbatim>\<open>Groceries\<close>, the title matches in the specification's sense, but the filter of
  the scripts keeps nothing and both pages show "Nothing to show".
\<close>

theorem C2_capitalised_title_is_not_found:
  "specMatches ''Groceries'' groceries \<and>
   matchedNotes ''Groceries'' [groceries] = [] \<and>
   listAll (saveNotes [groceries] freshPage) = Inr [groceries] \<and>
   shownAfterSearch AppJs ''Groceries'' (saveNotes [groceries] freshPage) = Inr nothingToShow \<and>
   shownAfterSearch Part000 ''Groceries'' (saveNotes [groceries] freshPage) = Inr nothingToShow"
  by (simp add: specMatches_groceries matchedNotes_groceries listAll_holds [OF holds_saveNotes]
        shownAfterSearch_holds [OF holds_saveNotes] rendered_def)

text \<open>
  C9, as amended. In the second script, on a store that can be read, the page load, the add
  listener, a confirmed deletion of a note and a confirmed "delete all" each return
  normally and leave the "delete all" button hidden exactly when the store lists no note.
  In \<^verbatim>\<open>app.js\<close> no listener shows or hides the button.
\<close>

theorem C9_delete_all_button_visibility:
  assumes "listAll w = Inr ns"
  shows "(\<exists>w'. initPage Part000 w = Inr w' \<and> visibilityMatchesStore w') \<and>
         (\<exists>w'. addClick Part000 w = Inr w' \<and> visibilityMatchesStore w') \<and>
         (\<exists>w'. handleDeleteNoteLinkClick True x w = Inr w' \<and> visibilityMatchesStore w') \<and>
         (\<exists>w'. btnDeleteAllNotesClick True w = Inr w' \<and> visibilityMatchesStore w') \<and>
         (\<forall>w'. initPage AppJs w = Inr w' \<longrightarrow> delAllHidden w' = delAllHidden w) \<and>
         (\<forall>w'. addClick AppJs w = Inr w' \<longrightarrow> delAllHidden w' = delAllHidden w) \<and>
         (\<forall>w'. deleteNote AppJs x w = Inr w' \<longrightarrow> delAllHidden w' = delAllHidden w) \<and>
         (\<forall>w'. delAllBtnClick typed w = Inr w' \<longrightarrow> delAllHidden w' = delAllHidden w)"
proof -
  from listAll_getNotes [OF assms] obtain w1 where g: "getNotes w = Inr (ns, w1)" ..
  show ?thesis
    using initPage_visibility [OF g] addClick_readable [OF g] deleteLink_visibility [OF g, of x]
      deleteAll_visibility [of w] initPage_AppJs_hidden [of w] addClick_AppJs_hidden [of w]
      deleteNote_hidden [of AppJs x w] delAllBtnClick_hidden [of typed w]
    by blast
qed

theorem C9_delete_all_button_visibility_witness:
  "listAll freshPage = Inr [] \<and>
   (\<exists>w'. initPage Part000 freshPage = Inr w' \<and> visibilityMatchesStore w') \<and>
   (\<exists>w'. addClick Part000 freshPage = Inr w' \<and> visibilityMatchesStore w') \<and>
   (\<exists>w'. handleDeleteNoteLinkClick True ''uuid-'' freshPage = Inr w' \<and> visibilityMatchesStore w') \<and>
   (\<exists>w'. btnDeleteAllNotesClick True freshPage = Inr w' \<and> visibilityMatchesStore w') \<and>
   initPage AppJs freshPage = Inr (freshPage\<lparr>notesHtml := nothingToShow\<rparr>) \<and>
   delAllHidden (freshPage\<lparr>notesHtml := nothingToShow\<rparr>) = delAllHidden freshPage"
proof -
  have "holds freshPage []"
    by (rule holds_empty) (simp add: freshPage_def)
  then have h: "listAll freshPage = Inr []"
    by (rule listAll_holds)
  show ?thesis
    using h C9_delete_all_button_visibility [OF h, of "''uuid-''" None] initPage_freshPage(2)
    by simp
qed

text \<open>
  The claim as it was stated fails in \<^verbatim>\<open>app.js\<close>, whichever way the page starts: with the
  button shown, the loaded page lists no note and shows it; with the button hidden, the page
  lists a note after one click on add and still hides it.
\<close>

theorem C9_app_js_never_hides_the_button:
  "(case pageAfter AppJs [] freshPage of
      Inl e \<Rightarrow> False
    | Inr w \<Rightarrow> listAll w = Inr [] \<and> \<not> delAllHidden w) \<and>
   (case pageAfter AppJs [ClickAdd] (freshPage\<lparr>delAllHidden := True\<rparr>) of
      Inl e \<Rightarrow> False
    | Inr w \<Rightarrow> listAll w = Inr [groceries] \<and> delAllHidden w)"
proof -
  have a: "pageAfter AppJs [] freshPage = Inr (freshPage\<lparr>notesHtml := nothingToShow\<rparr>)"
    by (simp add: pageAfter_def initPage_freshPage)
  have "holds (freshPage\<lparr>notesHtml := nothingToShow\<rparr>) []"
    by (simp add: holds_update holds_empty freshPage_def)
  then have la: "listAll (freshPage\<lparr>notesHtml := nothingToShow\<rparr>) = Inr []"
    by (rule listAll_holds)
  have 1: "case pageAfter AppJs [] freshPage of
      Inl e \<Rightarrow> False
    | Inr w \<Rightarrow> listAll w = Inr [] \<and> \<not> delAllHidden w"
    by (simp add: a la) (simp add: freshPage_def)
  define w0 where "w0 = freshPage\<lparr>delAllHidden := True\<rparr>"
  define w1 where "w1 = w0\<lparr>notesHtml := nothingToShow\<rparr>"
  have h0: "holds w0 []"
    by (rule holds_empty) (simp add: w0_def freshPage_def)
  have i: "initPage AppJs w0 = Inr w1"
    using updateDisplayedNotes_holds [OF h0, of AppJs]
    by (simp add: initPage_def rendered_def matchedNotes_Nil w1_def)
  have h1: "holds w1 []"
    using h0 by (simp add: w1_def holds_update)
  have t: "trim ''Groceries'' = ''Groceries''"
    by (simp add: trim_def isWhiteSpace_def)
  from addClick_holds [OF h1, of AppJs] obtain w2 where
    c: "addClick AppJs w1 = Inr w2" and l: "listAll w2 = Inr [groceries]"
    by (auto simp: w1_def w0_def freshPage_def groceries_def t)
  from addClick_AppJs_hidden [OF c] have d: "delAllHidden w2"
    by (simp add: w1_def w0_def)
  have "\<not> addBtnDisabled w1"
    by (simp add: w1_def w0_def freshPage_def)
  then have "pageAfter AppJs [ClickAdd] w0 = Inr w2"
    by (simp add: pageAfter_def i handleEvent_def userClicksAdd_def c)
  with l d have 2: "case pageAfter AppJs [ClickAdd] (freshPage\<lparr>delAllHidden := True\<rparr>) of
      Inl e \<Rightarrow> False
    | Inr w \<Rightarrow> listAll w = Inr [groceries] \<and> delAllHidden w"
    by (simp add: w0_def)
  from 1 2 show ?thesis ..
qed



text \<open>
  C6, as amended. The second script asks with \<^verbatim>\<open>confirm\<close> before deleting a note or all
  notes, \<^verbatim>\<open>app.js\<close> asks with \<^verbatim>\<open>prompt\<close> before deleting all notes; the question is the first
  dialog shown. A declined deletion leaves the storage area as it was, and \<^verbatim>\<open>app.js\<close>
  then shows its alert. The delete button of a card in \<^verbatim>\<open>app.js\<close> shows no dialog.
\<close>

theorem C6_deletions_ask_first_and_declining_keeps_the_store:
  "(\<exists>w'. handleDeleteNoteLinkClick False x w = Inr w' \<and>
         localStorage w' = localStorage w \<and> askedFirst confirmDeleteNote w w') \<and>
   (\<exists>w'. btnDeleteAllNotesClick False w = Inr w' \<and>
         localStorage w' = localStorage w \<and> askedFirst confirmDeleteAll w w') \<and>
   (answer \<noteq> Some ''delete'' \<longrightarrow>
      delAllBtnClick answer w = Inr (showDialog alertNotDeleted (showDialog promptDeleteAll w)) \<and>
      localStorage (showDialog alertNotDeleted (showDialog promptDeleteAll w)) = localStorage w) \<and>
   (\<forall>w'. handleDeleteNoteLinkClick True x w = Inr w' \<longrightarrow> askedFirst confirmDeleteNote w w') \<and>
   (\<forall>w'. btnDeleteAllNotesClick True w = Inr w' \<longrightarrow> askedFirst confirmDeleteAll w w') \<and>
   (\<forall>w'. delAllBtnClick (Some ''delete'') w = Inr w' \<longrightarrow> askedFirst promptDeleteAll w w') \<and>
   (\<forall>w'. deleteNote AppJs x w = Inr w' \<longrightarrow> dialogs w' = dialogs w)"
proof -
  have 1: "\<exists>w'. handleDeleteNoteLinkClick False x w = Inr w' \<and>
         localStorage w' = localStorage w \<and> askedFirst confirmDeleteNote w w'"
    by (simp add: handleDeleteNoteLinkClick_def askedFirst_def showDialog_def)
  have 2: "\<exists>w'. btnDeleteAllNotesClick False w = Inr w' \<and>
         localStorage w' = localStorage w \<and> askedFirst confirmDeleteAll w w'"
    by (simp add: btnDeleteAllNotesClick_def askedFirst_def showDialog_def)
  have 3: "answer \<noteq> Some ''delete'' \<longrightarrow>
      delAllBtnClick answer w = Inr (showDialog alertNotDeleted (showDialog promptDeleteAll w)) \<and>
      localStorage (showDialog alertNotDeleted (showDialog promptDeleteAll w)) = localStorage w"
    by (simp add: delAllBtnClick_def showDialog_def)
  show ?thesis
    using 1 2 3 handleDeleteNoteLinkClick_asks btnDeleteAllNotesClick_asks delAllBtnClick_asks
      deleteNote_dialogs
    by blast
qed

theorem C6_deletions_ask_first_and_declining_keeps_the_store_witness:
  "(\<exists>w'. handleDeleteNoteLinkClick False ''uuid-'' (saveNotes [groceries] freshPage) = Inr w' \<and>
         localStorage w' = localStorage (saveNotes [groceries] freshPage) \<and>
         askedFirst confirmDeleteNote (saveNotes [groceries] freshPage) w') \<and>
   (\<exists>w'. btnDeleteAllNotesClick False (saveNotes [groceries] freshPage) = Inr w' \<and>
         localStorage w' = localStorage (saveNotes [groceries] freshPage) \<and>
         askedFirst confirmDeleteAll (saveNotes [groceries] freshPage) w') \<and>
   delAllBtnClick (Some ''Delete'') (saveNotes [groceries] freshPage)
     = Inr (showDialog alertNotDeleted (showDialog promptDeleteAll (saveNotes [groceries] freshPage))) \<and>
   listAll (showDialog alertNotDeleted (showDialog promptDeleteAll (saveNotes [groceries] freshPage)))
     = Inr [groceries]"
proof -
  have "holds (showDialog alertNotDeleted (showDialog promptDeleteAll (saveNotes [groceries] freshPage))) [groceries]"
    by (simp add: showDialog_def holds_update holds_saveNotes)
  then have l: "listAll (showDialog alertNotDeleted (showDialog promptDeleteAll (saveNotes [groceries] freshPage)))
     = Inr [groceries]"
    by (rule listAll_holds)
  have n: "Some ''Delete'' \<noteq> Some ''delete''"
    by simp
  show ?thesis
    using l n C6_deletions_ask_first_and_declining_keeps_the_store
      [of "''uuid-''" "saveNotes [groceries] freshPage" "Some ''Delete''"]
    by blast
qed

text \<open>
  The claim as it was stated fails twice: in \<^verbatim>\<open>app.js\<close> the delete button of a card deletes
  the note and shows no dialog; in the second script a declined deletion shows the question
  and nothing after it.
\<close>

theorem C6_deletion_without_question_and_decline_without_message:
  "(case deleteNote AppJs ''uuid-'' (saveNotes [groceries] freshPage) of
      Inl e \<Rightarrow> False
    | Inr w' \<Rightarrow> dialogs w' = [] \<and> listAll w' = Inr []) \<and>
   (case handleDeleteNoteLinkClick False ''uuid-'' (saveNotes [groceries] freshPage) of
      Inl e \<Rightarrow> False
    | Inr w' \<Rightarrow> dialogs w' = [confirmDeleteNote])"
proof -
  have g: "getNotes (saveNotes [groceries] freshPage)
             = Inr ([groceries], (saveNotes [groceries] freshPage)
                 \<lparr>uuidCalls := uuidCalls (saveNotes [groceries] freshPage) + length [groceries]\<rparr>)"
    by (rule getNotes_holds [OF holds_saveNotes])
  from deleteNote_result [OF g, of AppJs "''uuid-''"] obtain w' where
    "deleteNote AppJs ''uuid-'' (saveNotes [groceries] freshPage) = Inr w'"
    and "holds w' (filter (\<lambda>n. uuid n \<noteq> ''uuid-'') [groceries])"
    and "dialogs w' = dialogs (saveNotes [groceries] freshPage)"
    by blast
  then have a: "case deleteNote AppJs ''uuid-'' (saveNotes [groceries] freshPage) of
      Inl e \<Rightarrow> False
    | Inr w' \<Rightarrow> dialogs w' = [] \<and> listAll w' = Inr []"
    by (simp add: listAll_holds groceries_def saveNotes_def freshPage_def)
  have b: "case handleDeleteNoteLinkClick False ''uuid-'' (saveNotes [groceries] freshPage) of
      Inl e \<Rightarrow> False
    | Inr w' \<Rightarrow> dialogs w' = [confirmDeleteNote]"
    by (simp add: handleDeleteNoteLinkClick_def showDialog_def saveNotes_def freshPage_def)
  from a b show ?thesis ..
qed

end
